theory Spec2Isabelle
  imports Complex_Main "HOL-Library.Word"
begin

section \<open>Audio framing and sequencing of the TTS front end\<close>

text \<open>
  A shallow embedding of \<^verbatim>\<open>src/utils/audioUtils.ts\<close> and of the playback and
  composition handlers of \<^verbatim>\<open>src/App.tsx\<close>.

  \<^item> A function that can throw returns \<open>error + 'a\<close>, with \<open>Inl\<close> the exception.
  \<^item> JavaScript numbers that hold lengths, offsets, indices, rates and field values are
    natural numbers; the conversions the platform applies when such a number is stored
    (\<^verbatim>\<open>ToUint8\<close>, the 16- and 32-bit stores of a \<^verbatim>\<open>DataView\<close>) are written out.
  \<^item> A \<^verbatim>\<open>Uint8Array\<close> is the list of its bytes. Every array the program builds is
    allocated by \<^verbatim>\<open>new Uint8Array(n)\<close>, so it spans its whole \<^verbatim>\<open>ArrayBuffer\<close> from
    offset 0 and \<^verbatim>\<open>data.buffer\<close> holds exactly the bytes of \<^verbatim>\<open>data\<close>.
  \<^item> A string whose code units matter (base64 text, binary strings) is the list of its
    UTF-16 code units; a string that is only stored or compared (identifiers, file names,
    segment text) is a \<open>string\<close>.
\<close>

subsection \<open>Bytes and errors\<close>

type_synonym byte = "8 word"

text \<open>Storing a number in a \<^verbatim>\<open>Uint8Array\<close> or with \<^verbatim>\<open>setUint8\<close> keeps it modulo 256.\<close>

definition toUint8 :: "nat \<Rightarrow> byte" where
  "toUint8 v = of_nat v"

datatype error = RangeError | InvalidCharacterError | NotSupportedError

definition then_do :: "error + 'a \<Rightarrow> ('a \<Rightarrow> error + 'b) \<Rightarrow> error + 'b" where
  "then_do r f = (case r of Inl e \<Rightarrow> Inl e | Inr v \<Rightarrow> f v)"

subsection \<open>The platform's base64 functions\<close>

text \<open>
  \<^verbatim>\<open>btoa\<close> and \<^verbatim>\<open>atob\<close> are browser functions. They are modelled after
  the HTML standard: \<^verbatim>\<open>btoa\<close> throws on a code unit above 255 and otherwise emits the
  padded base64 text; \<^verbatim>\<open>atob\<close> is the forgiving decoder (ASCII whitespace removed,
  one or two trailing \<open>=\<close> removed when the length is a multiple of four, failure on
  length 1 modulo 4 or on a character outside the alphabet).
\<close>

definition b64_char :: "nat \<Rightarrow> nat" where
  "b64_char n = (if n < 26 then 65 + n else if n < 52 then 71 + n else if n < 62 then n - 4
                 else if n = 62 then 43 else 47)"

definition b64_value :: "nat \<Rightarrow> nat option" where
  "b64_value c = (if 65 \<le> c \<and> c \<le> 90 then Some (c - 65)
                  else if 97 \<le> c \<and> c \<le> 122 then Some (c - 71)
                  else if 48 \<le> c \<and> c \<le> 57 then Some (c + 4)
                  else if c = 43 then Some 62
                  else if c = 47 then Some 63 else None)"

fun b64_sextets :: "nat list \<Rightarrow> nat list" where
  "b64_sextets (a # b # c # rest) =
     [a div 4, (a mod 4) * 16 + b div 16, (b mod 16) * 4 + c div 64, c mod 64] @ b64_sextets rest"
| "b64_sextets [a, b] = [a div 4, (a mod 4) * 16 + b div 16, (b mod 16) * 4]"
| "b64_sextets [a] = [a div 4, (a mod 4) * 16]"
| "b64_sextets [] = []"

definition btoa :: "nat list \<Rightarrow> error + nat list" where
  "btoa s = (if list_ex (\<lambda>c. 255 < c) s then Inl InvalidCharacterError
             else Inr (map b64_char (b64_sextets s) @ replicate ((3 - length s mod 3) mod 3) 61))"

definition is_ascii_whitespace :: "nat \<Rightarrow> bool" where
  "is_ascii_whitespace c = (c = 9 \<or> c = 10 \<or> c = 12 \<or> c = 13 \<or> c = 32)"

definition strip_padding :: "nat list \<Rightarrow> nat list" where
  "strip_padding s =
     (if length s mod 4 = 0 \<and> s \<noteq> [] \<and> last s = 61
      then (if butlast s \<noteq> [] \<and> last (butlast s) = 61 then butlast (butlast s) else butlast s)
      else s)"

fun b64_octets :: "nat list \<Rightarrow> nat list" where
  "b64_octets (p # q # r # s # rest) =
     [p * 4 + q div 16, (q mod 16) * 16 + r div 4, (r mod 4) * 64 + s] @ b64_octets rest"
| "b64_octets [p, q, r] = [p * 4 + q div 16, (q mod 16) * 16 + r div 4]"
| "b64_octets [p, q] = [p * 4 + q div 16]"
| "b64_octets [p] = []"
| "b64_octets [] = []"

definition atob :: "nat list \<Rightarrow> error + nat list" where
  "atob s =
     (let d = strip_padding (filter (\<lambda>c. \<not> is_ascii_whitespace c) s)
      in if length d mod 4 = 1 then Inl InvalidCharacterError
         else (case those (map b64_value d) of
                 None \<Rightarrow> Inl InvalidCharacterError
               | Some vs \<Rightarrow> Inr (b64_octets vs)))"

subsection \<open>Byte/text codec (encode, decode)\<close>

text \<open>
  \<^verbatim>\<open>encode\<close> appends \<^verbatim>\<open>String.fromCharCode(bytes[i])\<close> for each byte, which gives the
  binary string whose code units are the byte values, and passes it to \<^verbatim>\<open>btoa\<close>;
  \<^verbatim>\<open>decode\<close> stores \<^verbatim>\<open>charCodeAt(i)\<close> of each code unit of \<^verbatim>\<open>atob(base64)\<close> in a new
  \<^verbatim>\<open>Uint8Array\<close>.
\<close>

definition encode :: "byte list \<Rightarrow> error + nat list" where
  "encode bytes = btoa (map unat bytes)"

definition decode :: "nat list \<Rightarrow> error + byte list" where
  "decode base64 = then_do (atob base64) (\<lambda>binaryString. Inr (map toUint8 binaryString))"

subsection \<open>Container framer (createWavBlob)\<close>

text \<open>
  The header is an \<^verbatim>\<open>ArrayBuffer\<close> of 44 zero bytes written through a \<^verbatim>\<open>DataView\<close>.
  A \<^verbatim>\<open>DataView\<close> setter throws \<^verbatim>\<open>RangeError\<close> when the field does not fit in the
  buffer, and stores its value reduced modulo the width of the field.
\<close>

text \<open>The \<open>n\<close> low-order bytes of \<open>v\<close>, least significant first.\<close>

fun uintBytes :: "nat \<Rightarrow> nat \<Rightarrow> byte list" where
  "uintBytes 0 v = []"
| "uintBytes (Suc n) v = toUint8 v # uintBytes n (v div 256)"

definition setUint8 :: "byte list \<Rightarrow> nat \<Rightarrow> nat \<Rightarrow> error + byte list" where
  "setUint8 view byteOffset v =
     (if length view < byteOffset + 1 then Inl RangeError
      else Inr (take byteOffset view @ [toUint8 v] @ drop (byteOffset + 1) view))"

definition setUint16 :: "byte list \<Rightarrow> nat \<Rightarrow> nat \<Rightarrow> bool \<Rightarrow> error + byte list" where
  "setUint16 view byteOffset v littleEndian =
     (if length view < byteOffset + 2 then Inl RangeError
      else Inr (take byteOffset view
                @ (if littleEndian then uintBytes 2 v else rev (uintBytes 2 v))
                @ drop (byteOffset + 2) view))"

definition setUint32 :: "byte list \<Rightarrow> nat \<Rightarrow> nat \<Rightarrow> bool \<Rightarrow> error + byte list" where
  "setUint32 view byteOffset v littleEndian =
     (if length view < byteOffset + 4 then Inl RangeError
      else Inr (take byteOffset view
                @ (if littleEndian then uintBytes 4 v else rev (uintBytes 4 v))
                @ drop (byteOffset + 4) view))"

fun writeString :: "byte list \<Rightarrow> nat \<Rightarrow> nat list \<Rightarrow> error + byte list" where
  "writeString view offset [] = Inr view"
| "writeString view offset (c # cs) =
     then_do (setUint8 view offset c) (\<lambda>view. writeString view (offset + 1) cs)"

text \<open>The code units of a string literal of the source.\<close>

definition charCodes :: "string \<Rightarrow> nat list" where
  "charCodes s = map of_char s"

record Blob =
  blobBytes :: "byte list"
  blobType :: string

definition createWavBlob :: "byte list \<Rightarrow> nat \<Rightarrow> error + Blob" where
  "createWavBlob pcmData sampleRate =
     then_do (writeString (replicate 44 0) 0 (charCodes ''RIFF'')) (\<lambda>view.
     then_do (setUint32 view 4 (36 + length pcmData) True) (\<lambda>view.
     then_do (writeString view 8 (charCodes ''WAVE'')) (\<lambda>view.
     then_do (writeString view 12 (charCodes ''fmt '')) (\<lambda>view.
     then_do (setUint32 view 16 16 True) (\<lambda>view.
     then_do (setUint16 view 20 1 True) (\<lambda>view.
     then_do (setUint16 view 22 1 True) (\<lambda>view.
     then_do (setUint32 view 24 sampleRate True) (\<lambda>view.
     then_do (setUint32 view 28 (sampleRate * 2) True) (\<lambda>view.
     then_do (setUint16 view 32 2 True) (\<lambda>view.
     then_do (setUint16 view 34 16 True) (\<lambda>view.
     then_do (writeString view 36 (charCodes ''data'')) (\<lambda>view.
     then_do (setUint32 view 40 (length pcmData) True) (\<lambda>view.
       Inr \<lparr>blobBytes = view @ pcmData, blobType = ''audio/wav''\<rparr>)))))))))))))"

text \<open>
  Reading a header field back, as \<^verbatim>\<open>DataView.getUint16\<close> and \<^verbatim>\<open>getUint32\<close> do with
  \<^verbatim>\<open>littleEndian = true\<close>: the unsigned value of the \<open>n\<close> bytes at \<open>byteOffset\<close>.
\<close>

definition getUint :: "nat \<Rightarrow> byte list \<Rightarrow> nat \<Rightarrow> nat" where
  "getUint n bytes byteOffset =
     foldr (\<lambda>b acc. unat b + 256 * acc) (take n (drop byteOffset bytes)) 0"

text \<open>
  The header table of section 4.2 of the specification, as bytes, for a payload of the
  given length; the framer is compared with it below.
\<close>

definition wavHeader :: "nat \<Rightarrow> nat \<Rightarrow> byte list" where
  "wavHeader payloadLength sampleRate =
     map toUint8 (charCodes ''RIFF'') @ uintBytes 4 (36 + payloadLength)
     @ map toUint8 (charCodes ''WAVE'') @ map toUint8 (charCodes ''fmt '')
     @ uintBytes 4 16 @ uintBytes 2 1 @ uintBytes 2 1
     @ uintBytes 4 sampleRate @ uintBytes 4 (sampleRate * 2)
     @ uintBytes 2 2 @ uintBytes 2 16
     @ map toUint8 (charCodes ''data'') @ uintBytes 4 payloadLength"

subsection \<open>Sample decoder (decodeAudioToBuffer)\<close>

text \<open>
  \<^verbatim>\<open>new Int16Array(data.buffer)\<close> views the buffer as 16-bit elements in the byte order
  of the platform, little-endian here as in the specification. The constructor throws
  \<^verbatim>\<open>RangeError\<close> when the byte length of the buffer is not a multiple of the element size.
\<close>

definition int16_of_bytes :: "byte \<Rightarrow> byte \<Rightarrow> 16 word" where
  "int16_of_bytes lo hi = of_nat (unat lo + 256 * unat hi)"

fun int16_elements :: "byte list \<Rightarrow> 16 word list" where
  "int16_elements (lo # hi # rest) = int16_of_bytes lo hi # int16_elements rest"
| "int16_elements [lo] = []"
| "int16_elements [] = []"

definition Int16Array :: "byte list \<Rightarrow> error + 16 word list" where
  "Int16Array buffer =
     (if length buffer mod 2 \<noteq> 0 then Inl RangeError else Inr (int16_elements buffer))"

text \<open>
  A sample of a \<^verbatim>\<open>Float32Array\<close>. The quotients the decoder stores, \<open>k / 32768\<close> with
  \<open>k\<close> a 16-bit integer, are exactly representable in binary floating point with 24
  bits of mantissa, so neither the division nor the store rounds and the stored number is
  the real quotient; reading a typed array out of range and dividing gives \<open>NaN\<close>.
\<close>

datatype float32 = Finite real | NaN

record AudioBuffer =
  bufferSampleRate :: nat
  channels :: "float32 list list"

text \<open>
  The audio context is an argument of the decoder. Of it the model keeps what
  \<^verbatim>\<open>createBuffer\<close> depends on: the ranges the implementation supports. Per the Web Audio
  API, \<^verbatim>\<open>createBuffer\<close> throws \<^verbatim>\<open>NotSupportedError\<close> when an argument is zero or outside
  its range, and otherwise returns a silent buffer. Channel and frame counts are below
  \<open>2\<^sup>3\<^sup>2\<close>, the range of its \<^verbatim>\<open>unsigned long\<close> arguments.
\<close>

record AudioContext =
  maxNumberOfChannels :: nat
  minSampleRate :: nat
  maxSampleRate :: nat

definition createBuffer :: "AudioContext \<Rightarrow> nat \<Rightarrow> nat \<Rightarrow> nat \<Rightarrow> error + AudioBuffer" where
  "createBuffer ctx numberOfChannels len rate =
     (if numberOfChannels = 0 \<or> maxNumberOfChannels ctx < numberOfChannels \<or> len = 0
         \<or> rate < minSampleRate ctx \<or> maxSampleRate ctx < rate
      then Inl NotSupportedError
      else Inr \<lparr>bufferSampleRate = rate,
                channels = replicate numberOfChannels (replicate len (Finite 0))\<rparr>)"

text \<open>\<^verbatim>\<open>dataInt16[k] / 32768.0\<close>\<close>

definition int16_over_32768 :: "16 word list \<Rightarrow> nat \<Rightarrow> float32" where
  "int16_over_32768 dataInt16 k =
     (if k < length dataInt16 then Finite (real_of_int (sint (dataInt16 ! k)) / 32768) else NaN)"

text \<open>\<^verbatim>\<open>channelData[i] = v\<close>: a store outside the array is ignored.\<close>

definition float32_store :: "float32 list \<Rightarrow> nat \<Rightarrow> float32 \<Rightarrow> float32 list" where
  "float32_store channelData i v =
     (if i < length channelData then channelData[i := v] else channelData)"

text \<open>
  The inner loop. \<^verbatim>\<open>frameCount\<close> is the quotient
  \<^verbatim>\<open>dataInt16.length / numChannels\<close>, a fraction when the division leaves a remainder:
  the loop \<^verbatim>\<open>i < frameCount\<close> runs up to the quotient rounded up, while
  \<^verbatim>\<open>createBuffer\<close> truncates it.
\<close>

definition fill_channel :: "16 word list \<Rightarrow> nat \<Rightarrow> nat \<Rightarrow> float32 list \<Rightarrow> float32 list" where
  "fill_channel dataInt16 numChannels channel channelData =
     fold (\<lambda>i cd. float32_store cd i (int16_over_32768 dataInt16 (i * numChannels + channel)))
          [0 ..< (length dataInt16 + numChannels - 1) div numChannels] channelData"

definition decodeAudioToBuffer ::
    "byte list \<Rightarrow> AudioContext \<Rightarrow> nat \<Rightarrow> nat \<Rightarrow> error + AudioBuffer" where
  "decodeAudioToBuffer data ctx sampleRate numChannels =
     then_do (Int16Array data) (\<lambda>dataInt16.
     then_do (createBuffer ctx numChannels (length dataInt16 div numChannels) sampleRate) (\<lambda>buffer.
       Inr (fold (\<lambda>channel buffer.
                    buffer\<lparr>channels := (channels buffer)
                       [channel := fill_channel dataInt16 numChannels channel
                                     (channels buffer ! channel)]\<rparr>)
                 [0 ..< numChannels] buffer)))"

text \<open>
  The signed 16-bit little-endian integer held by two bytes, in the specification's
  words; the decoder's samples are compared with it below.
\<close>

definition int16_le :: "byte \<Rightarrow> byte \<Rightarrow> int" where
  "int16_le lo hi =
     (let u = unat lo + 256 * unat hi in if u < 32768 then int u else int u - 65536)"

text \<open>
  An audio context with the ranges every implementation of the Web Audio API must
  support, used for the concrete instances below.
\<close>

definition standardContext :: AudioContext where
  "standardContext = \<lparr>maxNumberOfChannels = 32, minSampleRate = 8000, maxSampleRate = 96000\<rparr>"

subsection \<open>Segments, archive packaging and track concatenation\<close>

text \<open>
  \<^verbatim>\<open>AudioBlock\<close> of \<^verbatim>\<open>src/types.ts\<close>. An optional field is an \<open>option\<close>; the tests
  \<^verbatim>\<open>if (block.audioData)\<close> and \<^verbatim>\<open>b => b.audioData\<close> ask whether the array is present,
  since every object is truthy in JavaScript, an empty \<^verbatim>\<open>Uint8Array\<close> included.
\<close>

record AudioBlock =
  block_id :: string
  block_text :: string
  audioData :: "byte list option"
  audioUrl :: "string option"
  isGenerating :: bool
  isPlaying :: bool
  block_error :: "string option"

text \<open>The decimal digits of a number, as a template literal prints an index.\<close>

fun string_of_nat :: "nat \<Rightarrow> string" where
  "string_of_nat n =
     (if n < 10 then [''0123456789'' ! n]
      else string_of_nat (n div 10) @ [''0123456789'' ! (n mod 10)])"

declare string_of_nat.simps [simp del]

text \<open>
  The archive is built by the JSZip library. The model keeps its table of entries in
  insertion order; \<^verbatim>\<open>zip.file(name, data)\<close> adds an entry or replaces the entry of that
  name, and the result of \<^verbatim>\<open>generateZip\<close> is the table handed to the archiver.
\<close>

type_synonym JSZip = "(string \<times> Blob) list"

definition zip_file :: "JSZip \<Rightarrow> string \<Rightarrow> Blob \<Rightarrow> JSZip" where
  "zip_file files name data =
     (if name \<in> set (map fst files)
      then map (\<lambda>entry. if fst entry = name then (name, data) else entry) files
      else files @ [(name, data)])"

fun generateZip_forEach :: "JSZip \<Rightarrow> nat \<Rightarrow> AudioBlock list \<Rightarrow> error + JSZip" where
  "generateZip_forEach files index [] = Inr files"
| "generateZip_forEach files index (block # blocks) =
     (case audioData block of
        None \<Rightarrow> generateZip_forEach files (index + 1) blocks
      | Some pcm \<Rightarrow>
          then_do (createWavBlob pcm 24000) (\<lambda>wavBlob.
            generateZip_forEach
              (zip_file files (''audio_'' @ string_of_nat (index + 1) @ ''.wav'') wavBlob)
              (index + 1) blocks))"

definition generateZip :: "AudioBlock list \<Rightarrow> error + JSZip" where
  "generateZip blocks = generateZip_forEach [] 0 blocks"

text \<open>\<^verbatim>\<open>target.set(source, offset)\<close> throws \<^verbatim>\<open>RangeError\<close> when the source does not fit.\<close>

definition typed_array_set :: "byte list \<Rightarrow> byte list \<Rightarrow> nat \<Rightarrow> error + byte list" where
  "typed_array_set target source offset =
     (if length target < offset + length source then Inl RangeError
      else Inr (take offset target @ source @ drop (offset + length source) target))"

fun concatenate_forEach :: "byte list \<Rightarrow> nat \<Rightarrow> AudioBlock list \<Rightarrow> error + byte list" where
  "concatenate_forEach result offset [] = Inr result"
| "concatenate_forEach result offset (block # blocks) =
     (case audioData block of
        None \<Rightarrow> concatenate_forEach result offset blocks
      | Some pcm \<Rightarrow>
          then_do (typed_array_set result pcm offset) (\<lambda>result.
            concatenate_forEach result (offset + length pcm) blocks))"

definition concatenateToSingleWav :: "AudioBlock list \<Rightarrow> error + Blob" where
  "concatenateToSingleWav blocks =
     (let totalLength =
            foldl (\<lambda>acc b. acc + (case audioData b of None \<Rightarrow> 0 | Some pcm \<Rightarrow> length pcm))
                  0 blocks
      in then_do (concatenate_forEach (replicate totalLength 0) 0 blocks) (\<lambda>result.
           createWavBlob result 24000))"

text \<open>
  The buffers of the segments that carry one, in the order of the segments: what the
  specification asks the concatenated payload to be made of.
\<close>

definition present_buffers :: "AudioBlock list \<Rightarrow> byte list list" where
  "present_buffers blocks = List.map_filter audioData blocks"

text \<open>
  The segment literal of the source,
  \<^verbatim>\<open>{ id: uuidv4(), text: '', isGenerating: false, isPlaying: false }\<close>; the identifier
  drawn by \<^verbatim>\<open>uuidv4()\<close> is an argument. \<open>withAudio\<close> is such a segment after
  \<^verbatim>\<open>generateBlockAudio\<close> has stored a buffer and the object URL of its container in it
  (\<^verbatim>\<open>{ ...b, audioData: pcmData, audioUrl: url, isGenerating: false }\<close>); it is used
  for the concrete instances below.
\<close>

definition newBlock :: "string \<Rightarrow> AudioBlock" where
  "newBlock uuid = \<lparr>block_id = uuid, block_text = [], audioData = None, audioUrl = None,
                    isGenerating = False, isPlaying = False, block_error = None\<rparr>"

definition withAudio :: "string \<Rightarrow> byte list \<Rightarrow> AudioBlock" where
  "withAudio uuid pcm =
     (newBlock uuid)\<lparr>audioData := Some pcm, audioUrl := Some (''blob:'' @ uuid),
                      isGenerating := False\<rparr>"

subsection \<open>Composition state and playback (App.tsx)\<close>

text \<open>
  The state of the component: its three \<^verbatim>\<open>useState\<close> cells and the reference
  \<^verbatim>\<open>currentAudioSource\<close>. The audio sources the component has created and started are
  kept in creation order, and a source is named by its position there. Of a source the
  model keeps its buffer, the \<^verbatim>\<open>onended\<close> handler the component has installed, whether
  \<^verbatim>\<open>stop()\<close> was called on it and whether its \<^verbatim>\<open>ended\<close> event has been delivered. A
  rejected promise of an event handler is logged in \<open>unhandledRejections\<close>.

  An \<^verbatim>\<open>onended\<close> handler is a closure. \<open>SingleEnded i\<close> is the handler of
  \<^verbatim>\<open>playBlock\<close> for segment \<open>i\<close>; \<open>SequenceEnded i rest\<close> is the handler of
  \<^verbatim>\<open>playAllSequentially\<close>, which clears the flag of segment \<open>i\<close> and resolves the promise
  the loop awaits, so that the loop resumes with the segments \<open>rest\<close> it has not visited
  yet (the remainder of the \<^verbatim>\<open>playableBlocks\<close> it captured when it was called).

  Each function below is one task of the event loop: an event handler together with the
  continuations that run as microtasks after it. \<^verbatim>\<open>await decodeAudioToBuffer(...)\<close>
  resumes in a microtask, since the decoder never waits, whereas the \<^verbatim>\<open>ended\<close> event of
  a source, also the one that follows \<^verbatim>\<open>stop()\<close>, is delivered by a later task. A
  handler reads the state of the latest render, which is the state the previous task left.
\<close>

record GlobalSettings =
  voice :: string
  speed :: real
  temperature :: real
  style :: string
  accent :: string
  seed :: int

datatype handler =
    SingleEnded string
  | SequenceEnded string "AudioBlock list"

record AudioBufferSourceNode =
  sourceBuffer :: AudioBuffer
  onended :: "handler option"
  stopCalled :: bool
  endedFired :: bool

record App =
  blocks :: "AudioBlock list"
  settings :: GlobalSettings
  isPlayingAll :: bool
  currentAudioSource :: "nat option"
  sourceNodes :: "AudioBufferSourceNode list"
  unhandledRejections :: "error list"

definition initialApp :: "string \<Rightarrow> App" where
  "initialApp uuid =
     \<lparr>blocks = [newBlock uuid],
      settings = \<lparr>voice = ''Kore'', speed = 1, temperature = 1, style = [], accent = [], seed = 42\<rparr>,
      isPlayingAll = False, currentAudioSource = None, sourceNodes = [], unhandledRejections = []\<rparr>"

definition setPlaying :: "string \<Rightarrow> bool \<Rightarrow> AudioBlock list \<Rightarrow> AudioBlock list" where
  "setPlaying i v prev = map (\<lambda>b. if block_id b = i then b\<lparr>isPlaying := v\<rparr> else b) prev"

definition stopAllPlayback :: "App \<Rightarrow> App" where
  "stopAllPlayback s =
     (let s1 = (case currentAudioSource s of
                  None \<Rightarrow> s
                | Some n \<Rightarrow>
                    s\<lparr>sourceNodes :=
                        (if n < length (sourceNodes s)
                         then (sourceNodes s)[n := (sourceNodes s ! n)\<lparr>stopCalled := True\<rparr>]
                         else sourceNodes s),
                      currentAudioSource := None\<rparr>)
      in s1\<lparr>isPlayingAll := False,
             blocks := map (\<lambda>b. b\<lparr>isPlaying := False\<rparr>) (blocks s1)\<rparr>)"

text \<open>
  \<^verbatim>\<open>ctx.createBufferSource()\<close>, \<^verbatim>\<open>source.buffer = buffer\<close>, \<^verbatim>\<open>source.onended = h\<close>
  and \<^verbatim>\<open>source.start()\<close>, which the source repeats in each of its three players.
\<close>

definition startSource :: "AudioBuffer \<Rightarrow> handler option \<Rightarrow> App \<Rightarrow> App" where
  "startSource buffer h s =
     s\<lparr>sourceNodes := sourceNodes s
          @ [\<lparr>sourceBuffer = buffer, onended = h, stopCalled = False, endedFired = False\<rparr>]\<rparr>"

definition playBlock :: "AudioContext \<Rightarrow> string \<Rightarrow> App \<Rightarrow> App" where
  "playBlock ctx i s =
     (let s1 = stopAllPlayback s in
      case find (\<lambda>b. block_id b = i) (blocks s) of
        None \<Rightarrow> s1
      | Some block \<Rightarrow>
          (case audioData block of
             None \<Rightarrow> s1
           | Some pcm \<Rightarrow>
               (case decodeAudioToBuffer pcm ctx 24000 1 of
                  Inl e \<Rightarrow> s1\<lparr>unhandledRejections := unhandledRejections s1 @ [e]\<rparr>
                | Inr buffer \<Rightarrow>
                    (startSource buffer (Some (SingleEnded i))
                       (s1\<lparr>blocks := setPlaying i True (blocks s1)\<rparr>))
                    \<lparr>currentAudioSource := Some (length (sourceNodes s1))\<rparr>)))"

text \<open>
  The \<^verbatim>\<open>for\<close> loop of \<^verbatim>\<open>playAllSequentially\<close>, from the segments it still has to
  visit up to its next \<^verbatim>\<open>await playPromise\<close>, its end, or the exception that ends it.
\<close>

fun playAll_loop :: "AudioContext \<Rightarrow> AudioBlock list \<Rightarrow> App \<Rightarrow> App" where
  "playAll_loop ctx [] s = s\<lparr>isPlayingAll := False\<rparr>"
| "playAll_loop ctx (block # rest) s =
     (case audioData block of
        None \<Rightarrow> playAll_loop ctx rest s
      | Some pcm \<Rightarrow>
          (case decodeAudioToBuffer pcm ctx 24000 1 of
             Inl e \<Rightarrow> s\<lparr>unhandledRejections := unhandledRejections s @ [e]\<rparr>
           | Inr buffer \<Rightarrow>
               (startSource buffer (Some (SequenceEnded (block_id block) rest))
                  (s\<lparr>blocks := setPlaying (block_id block) True (blocks s)\<rparr>))
               \<lparr>currentAudioSource := Some (length (sourceNodes s))\<rparr>))"

definition playAllSequentially :: "AudioContext \<Rightarrow> App \<Rightarrow> App" where
  "playAllSequentially ctx s =
     (if isPlayingAll s then stopAllPlayback s
      else let playableBlocks = filter (\<lambda>b. audioData b \<noteq> None) (blocks s)
           in if playableBlocks = [] then s
              else playAll_loop ctx playableBlocks (s\<lparr>isPlayingAll := True\<rparr>))"

text \<open>
  The delivery of the \<^verbatim>\<open>ended\<close> event of source \<open>n\<close>, once per source: its handler
  runs, and for a source of the sequence the loop resumes after \<^verbatim>\<open>await playPromise\<close>
  with the test \<^verbatim>\<open>if (!currentAudioSource.current) break\<close>.
\<close>

definition sourceEnded :: "AudioContext \<Rightarrow> nat \<Rightarrow> App \<Rightarrow> App" where
  "sourceEnded ctx n s =
     (if n < length (sourceNodes s) \<and> \<not> endedFired (sourceNodes s ! n)
      then let s1 = s\<lparr>sourceNodes := (sourceNodes s)[n := (sourceNodes s ! n)\<lparr>endedFired := True\<rparr>]\<rparr>
           in (case onended (sourceNodes s ! n) of
                 None \<Rightarrow> s1
               | Some (SingleEnded i) \<Rightarrow> s1\<lparr>blocks := setPlaying i False (blocks s1)\<rparr>
               | Some (SequenceEnded i rest) \<Rightarrow>
                   (let s2 = s1\<lparr>blocks := setPlaying i False (blocks s1)\<rparr>
                    in if currentAudioSource s2 = None then s2\<lparr>isPlayingAll := False\<rparr>
                       else playAll_loop ctx rest s2))
      else s)"

text \<open>\<^verbatim>\<open>Array.prototype.findIndex\<close>, with \<open>None\<close> for \<open>-1\<close>.\<close>

fun findIndex :: "('a \<Rightarrow> bool) \<Rightarrow> 'a list \<Rightarrow> nat option" where
  "findIndex P [] = None"
| "findIndex P (x # xs) = (if P x then Some 0 else map_option Suc (findIndex P xs))"

definition addBlock :: "string option \<Rightarrow> string \<Rightarrow> App \<Rightarrow> App" where
  "addBlock afterId uuid s =
     (case afterId of
        None \<Rightarrow> s\<lparr>blocks := blocks s @ [newBlock uuid]\<rparr>
      | Some a \<Rightarrow>
          if a = [] then s\<lparr>blocks := blocks s @ [newBlock uuid]\<rparr>
          else (case findIndex (\<lambda>b. block_id b = a) (blocks s) of
                  None \<Rightarrow> s\<lparr>blocks := newBlock uuid # blocks s\<rparr>
                | Some index \<Rightarrow>
                    s\<lparr>blocks := take (index + 1) (blocks s) @ [newBlock uuid]
                                  @ drop (index + 1) (blocks s)\<rparr>))"

definition removeBlock :: "string \<Rightarrow> App \<Rightarrow> App" where
  "removeBlock i s =
     s\<lparr>blocks := (if 1 < length (blocks s) then filter (\<lambda>b. block_id b \<noteq> i) (blocks s)
                   else blocks s)\<rparr>"

definition updateBlockText :: "string \<Rightarrow> string \<Rightarrow> App \<Rightarrow> App" where
  "updateBlockText i t s =
     s\<lparr>blocks := map (\<lambda>b. if block_id b = i
                             then b\<lparr>block_text := t, audioData := None, audioUrl := None\<rparr>
                             else b) (blocks s)\<rparr>"

definition clearAll :: "string \<Rightarrow> App \<Rightarrow> App" where
  "clearAll uuid s = (stopAllPlayback s)\<lparr>blocks := [newBlock uuid]\<rparr>"

text \<open>
  \<^verbatim>\<open>playPreview\<close> in two tasks: up to \<^verbatim>\<open>await generateTTS(...)\<close>, and from the outcome
  of the generation (an exception or the PCM bytes) to the end of the \<^verbatim>\<open>finally\<close> block.
  The accents of the preview sentence are left out.
\<close>

definition previewText :: string where
  "previewText = ''Ola, esta e uma previa da minha voz.''"

definition playPreview_begin :: "App \<Rightarrow> App" where
  "playPreview_begin s =
     s\<lparr>blocks := blocks s @ [\<lparr>block_id = ''preview'', block_text = previewText, audioData = None,
                                audioUrl = None, isGenerating = True, isPlaying = False,
                                block_error = None\<rparr>]\<rparr>"

definition playPreview_settle :: "AudioContext \<Rightarrow> error + byte list \<Rightarrow> App \<Rightarrow> App" where
  "playPreview_settle ctx generated s =
     (let s1 = (case generated of
                  Inl e \<Rightarrow> s
                | Inr pcmData \<Rightarrow>
                    (case decodeAudioToBuffer pcmData ctx 24000 1 of
                       Inl e \<Rightarrow> s
                     | Inr buffer \<Rightarrow> startSource buffer None s))
      in s1\<lparr>blocks := filter (\<lambda>b. block_id b \<noteq> ''preview'') (blocks s1)\<rparr>)"

text \<open>The tasks the component can be given, and their execution one after the other.\<close>

datatype event =
    ClickPlayAll
  | ClickPlay string
  | SourceEnded nat
  | AddBlock "string option" string
  | RemoveBlock string
  | UpdateBlockText string string
  | ClearAll string
  | ClickPreview
  | PreviewSettled "error + byte list"

fun step :: "AudioContext \<Rightarrow> App \<Rightarrow> event \<Rightarrow> App" where
  "step ctx s ClickPlayAll = playAllSequentially ctx s"
| "step ctx s (ClickPlay i) = playBlock ctx i s"
| "step ctx s (SourceEnded n) = sourceEnded ctx n s"
| "step ctx s (AddBlock afterId uuid) = addBlock afterId uuid s"
| "step ctx s (RemoveBlock i) = removeBlock i s"
| "step ctx s (UpdateBlockText i t) = updateBlockText i t s"
| "step ctx s (ClearAll uuid) = clearAll uuid s"
| "step ctx s ClickPreview = playPreview_begin s"
| "step ctx s (PreviewSettled generated) = playPreview_settle ctx generated s"

definition run :: "AudioContext \<Rightarrow> App \<Rightarrow> event list \<Rightarrow> App" where
  "run ctx s events = foldl (step ctx) s events"

text \<open>
  The run the specification describes for \<^verbatim>\<open>playAllSequentially\<close>: the clips complete
  naturally one after the other, source \<open>k\<close> first, and before each completion the user
  edits the composition (\<open>is_edit\<close>). \<open>sequence_nodes ctx j playable\<close> lists the sources
  the specification expects after \<open>j\<close> completions: one per segment of \<open>playable\<close>, in
  order, the next one started only when the one before has ended.
\<close>

fun is_edit :: "event \<Rightarrow> bool" where
  "is_edit (AddBlock afterId uuid) = True"
| "is_edit (RemoveBlock i) = True"
| "is_edit (UpdateBlockText i t) = True"
| "is_edit e = False"

fun completions :: "nat \<Rightarrow> event list list \<Rightarrow> event list" where
  "completions k [] = []"
| "completions k (edits # later) = edits @ [SourceEnded k] @ completions (k + 1) later"

fun sequence_nodes ::
    "AudioContext \<Rightarrow> nat \<Rightarrow> AudioBlock list \<Rightarrow> AudioBufferSourceNode option list" where
  "sequence_nodes ctx j [] = []"
| "sequence_nodes ctx j (b # rest) =
     (case audioData b of
        None \<Rightarrow> None
      | Some pcm \<Rightarrow>
          (case decodeAudioToBuffer pcm ctx 24000 1 of
             Inl e \<Rightarrow> None
           | Inr buffer \<Rightarrow>
               Some \<lparr>sourceBuffer = buffer, onended = Some (SequenceEnded (block_id b) rest),
                     stopCalled = False, endedFired = (0 < j)\<rparr>))
     # (if j = 0 then [] else sequence_nodes ctx (j - 1) rest)"

text \<open>A segment whose buffer, if it carries one, the decoder accepts.\<close>

definition decodable :: "AudioBlock \<Rightarrow> bool" where
  "decodable b = (case audioData b of None \<Rightarrow> True | Some pcm \<Rightarrow> even (length pcm) \<and> pcm \<noteq> [])"

section \<open>Properties\<close>

subsection \<open>Codec\<close>

lemma b64_value_char: "n < 64 \<Longrightarrow> b64_value (b64_char n) = Some n"
  by (auto simp: b64_value_def b64_char_def)

lemma b64_char_not_pad: "b64_char n \<noteq> 61"
  by (auto simp: b64_char_def)

lemma b64_char_not_ws: "\<not> is_ascii_whitespace (b64_char n)"
  by (auto simp: b64_char_def is_ascii_whitespace_def)

lemma b64_sextets_bound: "list_all (\<lambda>c. c < 256) bs \<Longrightarrow> list_all (\<lambda>v. v < 64) (b64_sextets bs)"
  by (induction bs rule: b64_sextets.induct) auto

lemma b64_octets_sextets: "list_all (\<lambda>c. c < 256) bs \<Longrightarrow> b64_octets (b64_sextets bs) = bs"
  by (induction bs rule: b64_sextets.induct) auto

lemma length_b64_sextets:
  "length (b64_sextets bs) mod 4 = (if length bs mod 3 = 0 then 0 else length bs mod 3 + 1)"
  by (induction bs rule: b64_sextets.induct) (auto simp: mod_Suc)

lemma b64_sextets_Nil: "b64_sextets bs = [] \<longleftrightarrow> bs = []"
  by (induction bs rule: b64_sextets.induct) auto

lemma those_map_value: "list_all (\<lambda>v. v < 64) vs \<Longrightarrow> those (map b64_value (map b64_char vs)) = Some vs"
  by (induction vs) (auto simp: b64_value_char)

lemma strip_padding_encoded:
  assumes "body \<noteq> [] \<or> k = 0" and "body \<noteq> [] \<Longrightarrow> last body \<noteq> 61" and "k \<le> 2"
    and "(length body + k) mod 4 = 0"
  shows "strip_padding (body @ replicate k 61) = body"
proof -
  consider "k = 0" | "k = 1" | "k = 2" using assms(3) by linarith
  then show ?thesis
  proof cases
    case 1
    then show ?thesis using assms by (auto simp: strip_padding_def)
  next
    case 2
    then show ?thesis using assms by (auto simp: strip_padding_def)
  next
    case 3
    then have "replicate k (61::nat) = [61, 61]" by (simp add: numeral_2_eq_2)
    then show ?thesis using assms 3 by (auto simp: strip_padding_def butlast_append)
  qed
qed

lemma atob_btoa:
  assumes "list_all (\<lambda>c. c < 256) s"
  shows "then_do (btoa s) atob = Inr s"
proof -
  define body where "body = map b64_char (b64_sextets s)"
  define k where "k = (3 - length s mod 3) mod 3"
  have "\<not> list_ex (\<lambda>c. 255 < c) s"
    using assms by (auto simp: list_all_iff list_ex_iff)
  then have enc: "btoa s = Inr (body @ replicate k 61)"
    by (simp add: btoa_def body_def k_def)
  have ws: "filter (\<lambda>c. \<not> is_ascii_whitespace c) (body @ replicate k 61) = body @ replicate k 61"
    unfolding filter_id_conv by (auto simp: body_def b64_char_not_ws) (simp add: is_ascii_whitespace_def)
  have m: "length body mod 4 = (if length s mod 3 = 0 then 0 else length s mod 3 + 1)"
    by (simp add: body_def length_b64_sextets)
  have "length s mod 3 < 3" by simp
  then consider "length s mod 3 = 0" | "length s mod 3 = 1" | "length s mod 3 = 2"
    by linarith
  then have len: "(length body + k) mod 4 = 0 \<and> k \<le> 2 \<and> length body mod 4 \<noteq> 1"
  proof cases
    case 1
    then show ?thesis using m by (simp add: k_def)
  next
    case 2
    then have "k = 2" "length body mod 4 = 2" using m by (simp_all add: k_def)
    then show ?thesis using mod_add_left_eq [of "length body" 4 k] by simp
  next
    case 3
    then have "k = 1" "length body mod 4 = 3" using m by (simp_all add: k_def)
    then show ?thesis using mod_add_left_eq [of "length body" 4 k] by simp
  qed
  have empty: "body \<noteq> [] \<or> k = 0"
    by (auto simp: body_def k_def b64_sextets_Nil)
  have lastb: "body \<noteq> [] \<Longrightarrow> last body \<noteq> 61"
    by (simp add: body_def last_map b64_char_not_pad)
  have strip: "strip_padding (body @ replicate k 61) = body"
    using strip_padding_encoded [OF empty lastb] len by simp
  have vals: "those (map b64_value body) = Some (b64_sextets s)"
    unfolding body_def by (rule those_map_value [OF b64_sextets_bound [OF assms]])
  have "atob (body @ replicate k 61) = Inr s"
    unfolding atob_def ws strip Let_def
    using len by (simp add: vals b64_octets_sextets [OF assms])
  then show ?thesis
    by (simp add: enc then_do_def)
qed

text \<open>
  Claim C3. For every byte buffer \<open>b\<close>, the empty buffer and buffers holding any of the
  256 byte values included, \<open>encode b\<close> returns a text and \<open>decode\<close> of that text
  returns \<open>b\<close>: \<open>decode (encode b) = b\<close>.
\<close>

theorem decode_encode: "then_do (encode b) decode = Inr b"
proof -
  have "list_all (\<lambda>c. c < 256) (map unat b)"
    by (induction b) (auto intro: order_less_le_trans [OF unsigned_less])
  from atob_btoa [OF this] obtain t where t: "btoa (map unat b) = Inr t" "atob t = Inr (map unat b)"
    by (auto simp: then_do_def split: sum.splits)
  then show ?thesis
    by (simp add: encode_def decode_def then_do_def comp_def toUint8_def)
qed

theorem decode_encode_witness:
  "then_do (encode [0, 1, 127, 128, 255]) decode = Inr [0, 1, 127, 128, 255]
   \<and> then_do (encode []) decode = Inr []"
  using decode_encode [of "[0, 1, 127, 128, 255]"] decode_encode [of "[]"] by simp

subsection \<open>Container framer\<close>

lemma then_do_Inr: "then_do (Inr v) f = f v"
  by (simp add: then_do_def)

lemma then_do_Inl: "then_do (Inl e) f = Inl e"
  by (simp add: then_do_def)

lemma length_uintBytes: "length (uintBytes n v) = n"
  by (induction n arbitrary: v) auto

lemma setUint8_ok:
  "byteOffset + 1 \<le> length view \<Longrightarrow>
   setUint8 view byteOffset v = Inr (take byteOffset view @ [toUint8 v] @ drop (byteOffset + 1) view)"
  by (simp add: setUint8_def)

lemma setUint16_ok:
  "byteOffset + 2 \<le> length view \<Longrightarrow>
   setUint16 view byteOffset v True =
     Inr (take byteOffset view @ uintBytes 2 v @ drop (byteOffset + 2) view)"
  by (simp add: setUint16_def)

lemma setUint32_ok:
  "byteOffset + 4 \<le> length view \<Longrightarrow>
   setUint32 view byteOffset v True =
     Inr (take byteOffset view @ uintBytes 4 v @ drop (byteOffset + 4) view)"
  by (simp add: setUint32_def)

lemma zeros44: "replicate 44 (0::byte) = [0,0,0,0,0,0,0,0,0,0,0,0,0,0,0,0,0,0,0,0,0,0,0,0,0,0,0,0,0,0,0,0,0,0,0,0,0,0,0,0,0,0,0,0]"
  by (simp add: numeral_eq_Suc)

lemma createWavBlob_bytes:
  "createWavBlob pcmData sampleRate =
     Inr \<lparr>blobBytes = wavHeader (length pcmData) sampleRate @ pcmData, blobType = ''audio/wav''\<rparr>"
  unfolding createWavBlob_def zeros44 wavHeader_def
  by (simp add: then_do_Inr setUint8_ok setUint16_ok setUint32_ok charCodes_def length_uintBytes)

lemma length_wavHeader: "length (wavHeader n r) = 44"
  by (simp add: wavHeader_def length_uintBytes charCodes_def)

lemma unat_toUint8: "unat (toUint8 x) = x mod 256"
  by (simp add: toUint8_def unat_of_nat)

lemma le_value_uintBytes:
  "foldr (\<lambda>b acc. unat b + 256 * acc) (uintBytes n v) 0 = v mod 256 ^ n"
proof (induction n arbitrary: v)
  case 0
  then show ?case by simp
next
  case (Suc n)
  have "v mod (256 * 256 ^ n) = 256 * (v div 256 mod 256 ^ n) + v mod 256"
    by (rule mod_mult2_eq)
  with Suc show ?case by (simp add: unat_toUint8)
qed

lemma getUint_stored:
  "length pre = off \<Longrightarrow> getUint n (pre @ uintBytes n v @ post) off = v mod 256 ^ n"
  by (simp add: getUint_def length_uintBytes le_value_uintBytes)


lemma uintBytes_4:
  "uintBytes 4 v = [toUint8 v, toUint8 (v div 256), toUint8 (v div 65536), toUint8 (v div 16777216)]"
proof -
  have "uintBytes (Suc (Suc (Suc (Suc 0)))) v
          = [toUint8 v, toUint8 (v div 256), toUint8 (v div 65536), toUint8 (v div 16777216)]"
    by (simp add: div_mult2_eq [symmetric])
  moreover have "(4::nat) = Suc (Suc (Suc (Suc 0)))" by simp
  ultimately show ?thesis by metis
qed

lemma uintBytes_2: "uintBytes 2 v = [toUint8 v, toUint8 (v div 256)]"
proof -
  have "uintBytes (Suc (Suc 0)) v = [toUint8 v, toUint8 (v div 256)]" by simp
  moreover have "(2::nat) = Suc (Suc 0)" by simp
  ultimately show ?thesis by metis
qed

text \<open>
  Claim C1, as amended. For every payload and every sample rate the framer succeeds; the
  blob is 44 bytes longer than the payload and ends with the payload unchanged; its first
  44 bytes are the header table: \<open>RIFF\<close> at 0, \<open>WAVE\<close> at 8, \<open>fmt\<close> and a space at
  12, \<open>data\<close> at 36, the constants 16, 1, 1, 2 and 16 at 16, 20, 22, 32 and 34, and in
  the four 32-bit little-endian fields at 4, 24, 28 and 40 the numbers \<open>36 + payload length\<close>,
  \<open>sample rate\<close>, \<open>sample rate \<times> 2\<close> and \<open>payload length\<close>, each reduced modulo
  \<open>2 ^ 32\<close>. A field therefore holds the number of the table exactly when that number is
  below \<open>2 ^ 32\<close>.
\<close>

theorem createWavBlob_header:
  "\<exists>blob. createWavBlob pcmData sampleRate = Inr blob
     \<and> length (blobBytes blob) = 44 + length pcmData
     \<and> take 4 (blobBytes blob) = map toUint8 (charCodes ''RIFF'')
     \<and> getUint 4 (blobBytes blob) 4 = (36 + length pcmData) mod 2 ^ 32
     \<and> take 4 (drop 8 (blobBytes blob)) = map toUint8 (charCodes ''WAVE'')
     \<and> take 4 (drop 12 (blobBytes blob)) = map toUint8 (charCodes ''fmt '')
     \<and> getUint 4 (blobBytes blob) 16 = 16
     \<and> getUint 2 (blobBytes blob) 20 = 1
     \<and> getUint 2 (blobBytes blob) 22 = 1
     \<and> getUint 4 (blobBytes blob) 24 = sampleRate mod 2 ^ 32
     \<and> getUint 4 (blobBytes blob) 28 = (sampleRate * 2) mod 2 ^ 32
     \<and> getUint 2 (blobBytes blob) 32 = 2
     \<and> getUint 2 (blobBytes blob) 34 = 16
     \<and> take 4 (drop 36 (blobBytes blob)) = map toUint8 (charCodes ''data'')
     \<and> getUint 4 (blobBytes blob) 40 = length pcmData mod 2 ^ 32
     \<and> drop 44 (blobBytes blob) = pcmData
     \<and> blobType blob = ''audio/wav''"
proof -
  let ?b = "wavHeader (length pcmData) sampleRate @ pcmData"
  have tags: "take 4 ?b = map toUint8 (charCodes ''RIFF'')"
    "take 4 (drop 8 ?b) = map toUint8 (charCodes ''WAVE'')"
    "take 4 (drop 12 ?b) = map toUint8 (charCodes ''fmt '')"
    "take 4 (drop 36 ?b) = map toUint8 (charCodes ''data'')"
    by (simp_all add: wavHeader_def charCodes_def length_uintBytes)
  have sizes: "getUint 4 ?b 4 = (36 + length pcmData) mod 2 ^ 32"
    "getUint 4 ?b 40 = length pcmData mod 2 ^ 32"
    by (simp_all add: wavHeader_def charCodes_def length_uintBytes getUint_def le_value_uintBytes)
  have rates: "getUint 4 ?b 24 = sampleRate mod 2 ^ 32"
    "getUint 4 ?b 28 = (sampleRate * 2) mod 2 ^ 32"
    by (simp_all add: wavHeader_def charCodes_def length_uintBytes getUint_def le_value_uintBytes)
  have fixedv: "getUint 4 ?b 16 = 16" "getUint 2 ?b 20 = 1" "getUint 2 ?b 22 = 1"
    "getUint 2 ?b 32 = 2" "getUint 2 ?b 34 = 16"
    by (simp_all add: wavHeader_def charCodes_def length_uintBytes getUint_def le_value_uintBytes)
  have rest: "drop 44 ?b = pcmData" "length ?b = 44 + length pcmData"
    by (simp_all add: length_wavHeader)
  show ?thesis
    unfolding createWavBlob_bytes using tags sizes rates fixedv rest by simp
qed

theorem createWavBlob_header_witness:
  "\<exists>blob. createWavBlob [1, 2, 3] 24000 = Inr blob
     \<and> length (blobBytes blob) = 47
     \<and> getUint 4 (blobBytes blob) 4 = 39
     \<and> getUint 4 (blobBytes blob) 24 = 24000
     \<and> getUint 4 (blobBytes blob) 28 = 48000
     \<and> getUint 4 (blobBytes blob) 40 = 3
     \<and> drop 44 (blobBytes blob) = [1, 2, 3]"
  using createWavBlob_header [of "[1, 2, 3]" 24000] by auto

text \<open>
  At the sample rate \<open>2 ^ 31\<close> the byte-rate field, bytes 28 to 31, holds 0 and not
  \<open>sample rate \<times> 2\<close>.
\<close>

theorem createWavBlob_byte_rate_wraps:
  "createWavBlob [] 2147483648 =
     Inr \<lparr>blobBytes = [82, 73, 70, 70, 36, 0, 0, 0, 87, 65, 86, 69, 102, 109, 116, 32,
                         16, 0, 0, 0, 1, 0, 1, 0, 0, 0, 0, 128, 0, 0, 0, 0,
                         2, 0, 16, 0, 100, 97, 116, 97, 0, 0, 0, 0],
          blobType = ''audio/wav''\<rparr>
   \<and> getUint 4 [82, 73, 70, 70, 36, 0, 0, 0, 87, 65, 86, 69, 102, 109, 116, 32,
                  16, 0, 0, 0, 1, 0, 1, 0, 0, 0, 0, 128, 0, 0, 0, 0,
                  2, 0, 16, 0, 100, 97, 116, 97, 0, 0, 0, 0] 28 = 0"
  unfolding createWavBlob_bytes
  by (simp add: wavHeader_def uintBytes_4 uintBytes_2 toUint8_def charCodes_def getUint_def)

subsection \<open>Sample decoder\<close>

lemma length_int16_elements: "length (int16_elements b) = length b div 2"
  by (induction b rule: int16_elements.induct) auto

lemma int16_elements_nth:
  "k < length b div 2 \<Longrightarrow>
   int16_elements b ! k = int16_of_bytes (b ! (2 * k)) (b ! (2 * k + 1))"
proof (induction b arbitrary: k rule: int16_elements.induct)
  case (1 lo hi rest)
  then show ?case by (cases k) auto
qed auto

lemma length_float32_store: "length (float32_store cd i v) = length cd"
  by (simp add: float32_store_def)

lemma fold_store_length:
  "length (fold (\<lambda>i cd. float32_store cd i (f i)) is cd) = length cd"
  by (induction "is" arbitrary: cd) (auto simp: length_float32_store)

lemma float32_store_nth:
  "float32_store cd j v ! i = (if i = j \<and> j < length cd then v else cd ! i)"
  by (simp add: float32_store_def)

lemma fold_store_nth:
  "i < length cd \<Longrightarrow> i < n \<Longrightarrow>
   fold (\<lambda>i cd. float32_store cd i (f i)) [0..<n] cd ! i = f i"
proof (induction n)
  case 0
  then show ?case by simp
next
  case (Suc n)
  show ?case
  proof (cases "i = n")
    case True
    then show ?thesis using Suc.prems
      by (simp add: float32_store_nth fold_store_length)
  next
    case False
    then have "i < n" using Suc.prems by simp
    then show ?thesis using Suc False
      by (simp add: float32_store_nth fold_store_length)
  qed
qed

lemma length_fill_channel: "length (fill_channel d nc c cd) = length cd"
  by (simp add: fill_channel_def fold_store_length)

lemma fill_channel_nth:
  assumes "i < length cd" "i < length d div nc"
  shows "fill_channel d nc c cd ! i = int16_over_32768 d (i * nc + c)"
proof -
  have "0 < nc" using assms(2) by (cases nc) auto
  then have "length d div nc \<le> (length d + nc - 1) div nc"
    by (intro div_le_mono) simp
  then have "i < (length d + nc - 1) div nc" using assms(2) by simp
  then show ?thesis unfolding fill_channel_def using assms(1) by (rule fold_store_nth [rotated])
qed

lemma fold_channels:
  "m \<le> length chs \<Longrightarrow>
   channels (fold (\<lambda>channel buffer.
                buffer\<lparr>channels := (channels buffer)[channel := g channel (channels buffer ! channel)]\<rparr>)
              [0..<m] \<lparr>bufferSampleRate = r, channels = chs\<rparr>)
     = map (\<lambda>c. g c (chs ! c)) [0..<m] @ drop m chs
   \<and> bufferSampleRate (fold (\<lambda>channel buffer.
                buffer\<lparr>channels := (channels buffer)[channel := g channel (channels buffer ! channel)]\<rparr>)
              [0..<m] \<lparr>bufferSampleRate = r, channels = chs\<rparr>) = r"
proof (induction m)
  case 0
  then show ?case by simp
next
  case (Suc m)
  then have m: "m < length chs" by simp
  have "(map (\<lambda>c. g c (chs ! c)) [0..<m] @ drop m chs)[m := g m (chs ! m)]
          = map (\<lambda>c. g c (chs ! c)) [0..<m] @ g m (chs ! m) # drop (Suc m) chs"
    using m by (simp add: list_update_append Cons_nth_drop_Suc [symmetric])
  moreover have "(map (\<lambda>c. g c (chs ! c)) [0..<m] @ drop m chs) ! m = chs ! m"
    using m by (simp add: nth_append)
  ultimately show ?case using Suc by simp
qed

lemma sint_int16:
  assumes "u < 65536"
  shows "sint (of_nat u :: 16 word) = (if u < 32768 then int u else int u - 65536)"
proof -
  have "sint (of_nat u :: 16 word) = (int u + 32768) mod 65536 - 32768"
    using int_word_sint [where 'a = 16 and x = "int u"] by simp
  moreover have "(int u + 32768) mod 65536 = (if u < 32768 then int u + 32768 else int u - 32768)"
  proof (cases "u < 32768")
    case True
    then show ?thesis by simp
  next
    case False
    have "(int u - 32768 + 65536) mod 65536 = (int u - 32768) mod 65536"
      by (rule mod_add_self2)
    moreover have "(int u - 32768) mod 65536 = int u - 32768"
      using False assms by (intro mod_pos_pos_trivial) auto
    ultimately show ?thesis using False by (simp add: add.commute)
  qed
  ultimately show ?thesis by simp
qed

lemma unat_pair_bound: "unat (lo :: byte) + 256 * unat (hi :: byte) < 65536"
proof -
  have "unat lo < 256" "unat hi < 256"
    using unsigned_less [of lo] unsigned_less [of hi] by simp_all
  then show ?thesis by simp
qed

lemma sint_int16_of_bytes: "sint (int16_of_bytes lo hi) = int16_le lo hi"
  unfolding int16_of_bytes_def int16_le_def Let_def
  by (rule sint_int16 [OF unat_pair_bound])

lemma int16_elements_value:
  assumes "k < length b div 2"
  shows "sint (int16_elements b ! k) = int16_le (b ! (2 * k)) (b ! (2 * k + 1))"
  using assms by (simp add: int16_elements_nth sint_int16_of_bytes)

lemma frame_index_bound:
  assumes "i < n div nc" "c < nc"
  shows "i * nc + c < (n::nat)"
proof -
  have "i * nc + c < (i + 1) * nc" using assms(2) by simp
  also have "\<dots> \<le> (n div nc) * nc" using assms(1) by (intro mult_le_mono1) simp
  also have "\<dots> \<le> n" by simp
  finally show ?thesis .
qed

lemma decodeAudioToBuffer_ok:
  assumes "even (length data)" "0 < numChannels" "numChannels \<le> maxNumberOfChannels ctx"
    "minSampleRate ctx \<le> sampleRate" "sampleRate \<le> maxSampleRate ctx"
    "0 < length data div 2 div numChannels"
  shows "decodeAudioToBuffer data ctx sampleRate numChannels =
     Inr \<lparr>bufferSampleRate = sampleRate,
          channels = map (\<lambda>c. fill_channel (int16_elements data) numChannels c
                                 (replicate (length data div 2 div numChannels) (Finite 0)))
                         [0..<numChannels]\<rparr>"
proof -
  let ?d = "int16_elements data"
  let ?chs = "replicate numChannels (replicate (length data div 2 div numChannels) (Finite 0))"
  have a: "Int16Array data = Inr ?d"
    using assms(1) by (simp add: Int16Array_def even_iff_mod_2_eq_zero)
  have b: "createBuffer ctx numChannels (length ?d div numChannels) sampleRate
             = Inr \<lparr>bufferSampleRate = sampleRate, channels = ?chs\<rparr>"
    using assms by (simp add: createBuffer_def length_int16_elements)
  have c: "map (\<lambda>c. fill_channel ?d numChannels c (?chs ! c)) [0..<numChannels]
            = map (\<lambda>c. fill_channel ?d numChannels c
                        (replicate (length data div 2 div numChannels) (Finite 0))) [0..<numChannels]"
    by (rule map_cong) auto
  show ?thesis
    unfolding decodeAudioToBuffer_def a b then_do_Inr
    using fold_channels [of numChannels ?chs "fill_channel ?d numChannels" sampleRate] c
    by (intro arg_cong [where f = Inr] AudioBuffer.equality) simp_all
qed

text \<open>
  Claim C2, as amended. For every \<open>n\<close>, decoding a buffer of odd byte length
  \<open>2n + 1\<close> fails, whatever the context, rate and channel count: the 16-bit view of the
  buffer cannot be built (\<open>RangeError\<close>), so no frame is produced and no byte is dropped.
\<close>

theorem decodeAudioToBuffer_odd_fails:
  "length data = 2 * n + 1 \<Longrightarrow>
   decodeAudioToBuffer data ctx sampleRate numChannels = Inl RangeError"
  by (simp add: decodeAudioToBuffer_def Int16Array_def then_do_Inl)

theorem decodeAudioToBuffer_odd_fails_witness:
  "length [0, 0, 0, 0, 9 :: byte] = 2 * 2 + 1
   \<and> decodeAudioToBuffer [0, 0, 0, 0, 9]
        standardContext 24000 1
       = Inl RangeError"
  using decodeAudioToBuffer_odd_fails [of "[0, 0, 0, 0, 9]" 2] by simp

text \<open>A buffer of three bytes does not decode to one frame: the decoder throws.\<close>

theorem decodeAudioToBuffer_three_bytes:
  "decodeAudioToBuffer [1, 2, 3]
     standardContext 24000 1
   = Inl RangeError"
  by (simp add: decodeAudioToBuffer_def Int16Array_def then_do_Inl)

lemma four_samples:
  assumes "1 \<le> maxNumberOfChannels ctx" "minSampleRate ctx \<le> 24000" "24000 \<le> maxSampleRate ctx"
  shows "decodeAudioToBuffer [0, 0, 255, 127, 0, 128, 255, 255] ctx 24000 1 =
          Inr \<lparr>bufferSampleRate = 24000,
               channels = [[Finite 0, Finite (32767 / 32768), Finite (- 1), Finite (- 1 / 32768)]]\<rparr>"
proof -
  have r: "replicate 4 (Finite 0) = [Finite 0, Finite 0, Finite 0, Finite 0]"
    by (simp add: numeral_eq_Suc)
  have s: "sint (int16_of_bytes 0 0) = 0" "sint (int16_of_bytes 255 127) = 32767"
    "sint (int16_of_bytes 0 128) = - 32768" "sint (int16_of_bytes 255 255) = - 1"
    by (simp_all add: sint_int16_of_bytes int16_le_def)
  show ?thesis
    using assms
    by (simp add: decodeAudioToBuffer_ok fill_channel_def float32_store_def int16_over_32768_def r s)
qed

text \<open>
  Claim C4. For every buffer of even length, decoded with a channel count and a sample
  rate the audio context accepts, the decoder succeeds and the sample of frame \<open>i\<close> and
  channel \<open>c\<close> is the signed 16-bit little-endian integer number
  \<open>i * channelCount + c\<close> of the buffer divided by 32768. In particular the integers
  0, 32767, -32768 and -1 decode to 0, 32767/32768, -1 and -1/32768.
\<close>

theorem decodeAudioToBuffer_normalizes:
  "(even (length data) \<and> numChannels \<le> maxNumberOfChannels ctx
      \<and> minSampleRate ctx \<le> sampleRate \<and> sampleRate \<le> maxSampleRate ctx
      \<and> channel < numChannels \<and> i < length data div 2 div numChannels
    \<longrightarrow> (\<exists>buffer. decodeAudioToBuffer data ctx sampleRate numChannels = Inr buffer
          \<and> bufferSampleRate buffer = sampleRate
          \<and> length (channels buffer) = numChannels
          \<and> length (channels buffer ! channel) = length data div 2 div numChannels
          \<and> channels buffer ! channel ! i =
               Finite (real_of_int (int16_le (data ! (2 * (i * numChannels + channel)))
                                             (data ! (2 * (i * numChannels + channel) + 1)))
                       / 32768)))
   \<and> (1 \<le> maxNumberOfChannels ctx \<and> minSampleRate ctx \<le> 24000 \<and> 24000 \<le> maxSampleRate ctx
    \<longrightarrow> decodeAudioToBuffer [0, 0, 255, 127, 0, 128, 255, 255] ctx 24000 1 =
          Inr \<lparr>bufferSampleRate = 24000,
               channels = [[Finite 0, Finite (32767 / 32768), Finite (- 1), Finite (- 1 / 32768)]]\<rparr>)"
proof (intro conjI impI)
  assume h: "even (length data) \<and> numChannels \<le> maxNumberOfChannels ctx
      \<and> minSampleRate ctx \<le> sampleRate \<and> sampleRate \<le> maxSampleRate ctx
      \<and> channel < numChannels \<and> i < length data div 2 div numChannels"
  let ?frames = "length data div 2 div numChannels"
  let ?d = "int16_elements data"
  have pos: "0 < numChannels" "0 < ?frames" using h by auto
  have k: "i * numChannels + channel < length data div 2"
    using h by (intro frame_index_bound) auto
  have dec: "decodeAudioToBuffer data ctx sampleRate numChannels =
     Inr \<lparr>bufferSampleRate = sampleRate,
          channels = map (\<lambda>c. fill_channel ?d numChannels c (replicate ?frames (Finite 0)))
                         [0..<numChannels]\<rparr>"
    using h pos by (intro decodeAudioToBuffer_ok) auto
  have "fill_channel ?d numChannels channel (replicate ?frames (Finite 0)) ! i
          = int16_over_32768 ?d (i * numChannels + channel)"
    using h by (intro fill_channel_nth) (auto simp: length_int16_elements)
  also have "\<dots> = Finite (real_of_int (sint (?d ! (i * numChannels + channel))) / 32768)"
    using k by (simp add: int16_over_32768_def length_int16_elements)
  also have "sint (?d ! (i * numChannels + channel))
               = int16_le (data ! (2 * (i * numChannels + channel)))
                          (data ! (2 * (i * numChannels + channel) + 1))"
    using k by (rule int16_elements_value)
  finally show "\<exists>buffer. decodeAudioToBuffer data ctx sampleRate numChannels = Inr buffer
          \<and> bufferSampleRate buffer = sampleRate
          \<and> length (channels buffer) = numChannels
          \<and> length (channels buffer ! channel) = length data div 2 div numChannels
          \<and> channels buffer ! channel ! i =
               Finite (real_of_int (int16_le (data ! (2 * (i * numChannels + channel)))
                                             (data ! (2 * (i * numChannels + channel) + 1)))
                       / 32768)"
    unfolding dec using h by (simp add: length_fill_channel)
next
  assume "1 \<le> maxNumberOfChannels ctx \<and> minSampleRate ctx \<le> 24000 \<and> 24000 \<le> maxSampleRate ctx"
  then show "decodeAudioToBuffer [0, 0, 255, 127, 0, 128, 255, 255] ctx 24000 1 =
          Inr \<lparr>bufferSampleRate = 24000,
               channels = [[Finite 0, Finite (32767 / 32768), Finite (- 1), Finite (- 1 / 32768)]]\<rparr>"
    by (intro four_samples) auto
qed

theorem decodeAudioToBuffer_normalizes_witness:
  "(\<exists>buffer. decodeAudioToBuffer [0, 0, 255, 127, 0, 128, 255, 255, 1, 0] standardContext 24000 2
             = Inr buffer
       \<and> length (channels buffer) = 2
       \<and> channels buffer ! 1 ! 1 = Finite (- 1 / 32768))
   \<and> decodeAudioToBuffer [0, 0, 255, 127, 0, 128, 255, 255] standardContext 24000 1 =
          Inr \<lparr>bufferSampleRate = 24000,
               channels = [[Finite 0, Finite (32767 / 32768), Finite (- 1), Finite (- 1 / 32768)]]\<rparr>"
  using decodeAudioToBuffer_normalizes
    [of "[0, 0, 255, 127, 0, 128, 255, 255, 1, 0]" 2 standardContext 24000 1 1]
  by (auto simp: int16_le_def standardContext_def)

subsection \<open>Track concatenation and archive packaging\<close>

lemma foldl_total:
  "foldl (\<lambda>acc b. acc + (case audioData b of None \<Rightarrow> 0 | Some pcm \<Rightarrow> length pcm)) a segs
     = a + length (concat (present_buffers segs))"
  by (induction segs arbitrary: a) (auto simp: present_buffers_def split: option.splits)

lemma concatenate_forEach_result:
  "length result = length pre + length (concat (present_buffers segs)) + n \<Longrightarrow>
   take (length pre) result = pre \<Longrightarrow>
   concatenate_forEach result (length pre) segs
     = Inr (pre @ concat (present_buffers segs) @ drop (length pre + length (concat (present_buffers segs))) result)"
proof (induction segs arbitrary: result pre)
  case Nil
  then show ?case
    by (simp add: present_buffers_def) (metis append_take_drop_id)
next
  case (Cons b bs)
  show ?case
  proof (cases "audioData b")
    case None
    then show ?thesis using Cons by (simp add: present_buffers_def)
  next
    case (Some pcm)
    let ?r = "take (length pre) result @ pcm @ drop (length pre + length pcm) result"
    have pb: "present_buffers (b # bs) = pcm # present_buffers bs"
      using Some by (simp add: present_buffers_def)
    have step: "typed_array_set result pcm (length pre) = Inr ?r"
      using Cons.prems by (simp add: typed_array_set_def pb)
    have r: "?r = (pre @ pcm) @ drop (length (pre @ pcm)) result"
      using Cons.prems by simp
    have len: "length ?r = length (pre @ pcm) + length (concat (present_buffers bs)) + n"
      using Cons.prems by (simp add: pb)
    have tk: "take (length (pre @ pcm)) ?r = pre @ pcm"
      unfolding r by simp
    have "concatenate_forEach ?r (length (pre @ pcm)) bs
           = Inr ((pre @ pcm) @ concat (present_buffers bs)
                  @ drop (length (pre @ pcm) + length (concat (present_buffers bs))) ?r)"
      using len tk by (rule Cons.IH)
    moreover have "drop (length (pre @ pcm) + length (concat (present_buffers bs))) ?r
                     = drop (length pre + length (concat (present_buffers (b # bs)))) result"
      using Cons.prems by (simp add: pb ac_simps)
    ultimately show ?thesis
      using Some step by (simp add: then_do_Inr pb)
  qed
qed

lemma concatenateToSingleWav_eq:
  "concatenateToSingleWav segs = createWavBlob (concat (present_buffers segs)) 24000"
proof -
  let ?p = "concat (present_buffers segs)"
  have "concatenate_forEach (replicate (length ?p) 0) 0 segs = Inr ?p"
    using concatenate_forEach_result [of "replicate (length ?p) 0" "[]" segs 0] by simp
  then show ?thesis
    by (simp add: concatenateToSingleWav_def foldl_total then_do_Inr)
qed


lemma generateZip_forEach_None:
  "audioData b = None \<Longrightarrow> generateZip_forEach files i (b # bs) = generateZip_forEach files (i + 1) bs"
  by simp

lemma generateZip_forEach_Some:
  "audioData b = Some pcm \<Longrightarrow>
   generateZip_forEach files i (b # bs) =
     generateZip_forEach
       (zip_file files (''audio_'' @ string_of_nat (i + 1) @ ''.wav'')
          \<lparr>blobBytes = wavHeader (length pcm) 24000 @ pcm, blobType = ''audio/wav''\<rparr>)
       (i + 1) bs"
  by (simp add: createWavBlob_bytes then_do_Inr)

lemma audio_names:
  "string_of_nat (Suc 0) = ''1''"
  "string_of_nat (Suc (Suc 0)) = ''2''"
  "string_of_nat (Suc (Suc (Suc 0))) = ''3''"
  by (simp_all add: string_of_nat.simps [of "Suc 0"] string_of_nat.simps [of "Suc (Suc 0)"]
        string_of_nat.simps [of "Suc (Suc (Suc 0))"])

text \<open>
  Claim C5. For every list of segments the concatenator succeeds; the payload it frames
  is the concatenation, in the order of the segments, of the buffers of the segments that
  carry one, the others being skipped; the length of the payload is the sum of the lengths
  of those buffers; and the blob is the container the framer builds from that payload.
\<close>

theorem concatenateToSingleWav_concat:
  "\<exists>blob. concatenateToSingleWav segs = Inr blob
      \<and> createWavBlob (concat (present_buffers segs)) 24000 = Inr blob
      \<and> length (blobBytes blob) = 44 + sum_list (map length (present_buffers segs))
      \<and> drop 44 (blobBytes blob) = concat (present_buffers segs)
      \<and> present_buffers segs = map the (filter (\<lambda>d. d \<noteq> None) (map audioData segs))"
proof -
  have "present_buffers segs = map the (filter (\<lambda>d. d \<noteq> None) (map audioData segs))"
    by (induction segs) (auto simp: present_buffers_def List.map_filter_simps split: option.splits)
  then show ?thesis
    by (simp add: concatenateToSingleWav_eq createWavBlob_bytes length_wavHeader length_concat)
qed

theorem concatenateToSingleWav_concat_witness:
  "\<exists>blob. concatenateToSingleWav
           [withAudio ''a'' [1, 2, 3], newBlock ''b'', withAudio ''c'' [4, 5, 6, 7, 8]] = Inr blob
      \<and> length (blobBytes blob) = 52
      \<and> drop 44 (blobBytes blob) = [1, 2, 3, 4, 5, 6, 7, 8]"
  using concatenateToSingleWav_concat
     [of "[withAudio ''a'' [1, 2, 3], newBlock ''b'', withAudio ''c'' [4, 5, 6, 7, 8]]"]
  by (auto simp: present_buffers_def List.map_filter_simps withAudio_def newBlock_def)

text \<open>
  Claim C6, as amended. For three segments of which the first carries a buffer of 100
  bytes and the third a buffer of 200 bytes: when the second carries no buffer, the
  concatenated container has 344 bytes and the archive has exactly two entries,
  \<open>audio_1.wav\<close> and \<open>audio_3.wav\<close>, the framed containers of the first and the third
  buffer; when the second carries a buffer of length 0, the concatenated container still
  has 344 bytes, but the archive has a third entry, \<open>audio_2.wav\<close>, the 44-byte
  container of the empty buffer.
\<close>

theorem end_to_end_three_segments:
  "audioData b1 = Some a \<and> length a = 100 \<and> audioData b3 = Some c \<and> length c = 200 \<longrightarrow>
     (audioData b2 = None \<longrightarrow>
        (\<exists>blob. concatenateToSingleWav [b1, b2, b3] = Inr blob \<and> length (blobBytes blob) = 344)
        \<and> (\<exists>w1 w3. createWavBlob a 24000 = Inr w1 \<and> createWavBlob c 24000 = Inr w3
              \<and> generateZip [b1, b2, b3] = Inr [(''audio_1.wav'', w1), (''audio_3.wav'', w3)]))
     \<and> (audioData b2 = Some [] \<longrightarrow>
        (\<exists>blob. concatenateToSingleWav [b1, b2, b3] = Inr blob \<and> length (blobBytes blob) = 344)
        \<and> (\<exists>w1 w2 w3. createWavBlob a 24000 = Inr w1 \<and> createWavBlob [] 24000 = Inr w2
              \<and> createWavBlob c 24000 = Inr w3 \<and> length (blobBytes w2) = 44
              \<and> generateZip [b1, b2, b3] =
                    Inr [(''audio_1.wav'', w1), (''audio_2.wav'', w2), (''audio_3.wav'', w3)]))"
proof (intro impI conjI; elim conjE)
  assume h: "audioData b1 = Some a" "length a = 100" "audioData b3 = Some c" "length c = 200"
    and n: "audioData b2 = None"
  show "\<exists>blob. concatenateToSingleWav [b1, b2, b3] = Inr blob \<and> length (blobBytes blob) = 344"
    using h n
    by (simp add: concatenateToSingleWav_eq createWavBlob_bytes length_wavHeader
          present_buffers_def List.map_filter_simps)
  show "\<exists>w1 w3. createWavBlob a 24000 = Inr w1 \<and> createWavBlob c 24000 = Inr w3
          \<and> generateZip [b1, b2, b3] = Inr [(''audio_1.wav'', w1), (''audio_3.wav'', w3)]"
    using h n
    by (simp add: generateZip_def generateZip_forEach_None generateZip_forEach_Some
          createWavBlob_bytes zip_file_def audio_names del: generateZip_forEach.simps(2))
next
  assume h: "audioData b1 = Some a" "length a = 100" "audioData b3 = Some c" "length c = 200"
    and e: "audioData b2 = Some []"
  show "\<exists>blob. concatenateToSingleWav [b1, b2, b3] = Inr blob \<and> length (blobBytes blob) = 344"
    using h e
    by (simp add: concatenateToSingleWav_eq createWavBlob_bytes length_wavHeader
          present_buffers_def List.map_filter_simps)
  show "\<exists>w1 w2 w3. createWavBlob a 24000 = Inr w1 \<and> createWavBlob [] 24000 = Inr w2
          \<and> createWavBlob c 24000 = Inr w3 \<and> length (blobBytes w2) = 44
          \<and> generateZip [b1, b2, b3] =
                Inr [(''audio_1.wav'', w1), (''audio_2.wav'', w2), (''audio_3.wav'', w3)]"
    using h e
    by (simp add: generateZip_def generateZip_forEach_None generateZip_forEach_Some
          createWavBlob_bytes zip_file_def audio_names length_wavHeader
          del: generateZip_forEach.simps(2))
qed

theorem end_to_end_three_segments_witness:
  "(\<exists>blob. concatenateToSingleWav
             [withAudio ''a'' (replicate 100 1), newBlock ''b'', withAudio ''c'' (replicate 200 2)]
           = Inr blob
          \<and> length (blobBytes blob) = 344)
   \<and> (\<exists>w1 w3. generateZip
             [withAudio ''a'' (replicate 100 1), newBlock ''b'', withAudio ''c'' (replicate 200 2)]
          = Inr [(''audio_1.wav'', w1), (''audio_3.wav'', w3)])
   \<and> (\<exists>w1 w2 w3. generateZip
             [withAudio ''a'' (replicate 100 1), withAudio ''b'' [], withAudio ''c'' (replicate 200 2)]
          = Inr [(''audio_1.wav'', w1), (''audio_2.wav'', w2), (''audio_3.wav'', w3)])"
  using end_to_end_three_segments
    [of "withAudio ''a'' (replicate 100 1)" "replicate 100 1"
        "withAudio ''c'' (replicate 200 2)" "replicate 200 2" "newBlock ''b''"]
    end_to_end_three_segments
    [of "withAudio ''a'' (replicate 100 1)" "replicate 100 1"
        "withAudio ''c'' (replicate 200 2)" "replicate 200 2" "withAudio ''b'' []"]
  by (auto simp: withAudio_def newBlock_def)

text \<open>A segment that carries an empty buffer is not skipped by the archive.\<close>

theorem generateZip_keeps_empty_buffer:
  "map_sum id (map fst)
     (generateZip [withAudio ''a'' (replicate 100 1), withAudio ''b'' [],
                   withAudio ''c'' (replicate 200 2)])
   = Inr [''audio_1.wav'', ''audio_2.wav'', ''audio_3.wav'']"
  by (simp add: generateZip_def generateZip_forEach_Some [where pcm = "replicate 100 1"]
        generateZip_forEach_Some [where pcm = "[]"] generateZip_forEach_Some [where pcm = "replicate 200 2"]
        withAudio_def newBlock_def zip_file_def audio_names del: generateZip_forEach.simps(2))

subsection \<open>Playback sequencer\<close>

lemma decode_one_frame:
  "decodeAudioToBuffer [0, 0] standardContext 24000 1
     = Inr \<lparr>bufferSampleRate = 24000, channels = [[Finite 0]]\<rparr>"
proof -
  have "sint (int16_of_bytes 0 0) = 0"
    by (simp add: sint_int16_of_bytes int16_le_def)
  then show ?thesis
    by (simp add: decodeAudioToBuffer_ok standardContext_def fill_channel_def float32_store_def
          int16_over_32768_def)
qed

lemma decode_one_frame_Suc:
  "decodeAudioToBuffer [0, 0] standardContext 24000 (Suc 0)
     = Inr \<lparr>bufferSampleRate = 24000, channels = [[Finite 0]]\<rparr>"
  using decode_one_frame by simp

text \<open>
  \<^verbatim>\<open>stopAllPlayback\<close> is idempotent, and after it no segment is flagged as playing, no
  sequence is flagged as running and the reference is empty, also when nothing was playing.
\<close>

lemma stopAllPlayback_idempotent: "stopAllPlayback (stopAllPlayback s) = stopAllPlayback s"
  by (simp add: stopAllPlayback_def Let_def comp_def split: option.splits)

lemma stopAllPlayback_clears:
  "currentAudioSource (stopAllPlayback s) = None \<and> \<not> isPlayingAll (stopAllPlayback s)
   \<and> list_all (\<lambda>b. \<not> isPlaying b) (blocks (stopAllPlayback s))"
  by (simp add: stopAllPlayback_def Let_def list_all_iff split: option.splits)

lemma sequence_ends_after_stop:
  assumes "n < length (sourceNodes s)" "\<not> endedFired (sourceNodes s ! n)"
    "onended (sourceNodes s ! n) = Some (SequenceEnded i rest)" "currentAudioSource s = None"
  shows "sourceEnded ctx n s =
           s\<lparr>sourceNodes := (sourceNodes s)[n := (sourceNodes s ! n)\<lparr>endedFired := True\<rparr>],
             blocks := setPlaying i False (blocks s), isPlayingAll := False\<rparr>"
  using assms by (simp add: sourceEnded_def Let_def)

text \<open>
  Claim C7, at the input where the code departs from it. Three segments carry a clip and
  the sequence is playing the first. The user presses the play button of the third
  segment: \<^verbatim>\<open>playBlock\<close> calls \<^verbatim>\<open>stopAllPlayback\<close>, which stops the first clip and
  clears the reference, and then starts the third clip and stores its source in the
  reference. When the \<^verbatim>\<open>ended\<close> event of the stopped clip arrives, the loop of the
  sequence finds the reference set, does not break, and starts the second segment: a
  segment after the one that was playing enters the playing state after
  \<^verbatim>\<open>stopAllPlayback\<close> was called, and two sources play at once.
\<close>

theorem playBlock_does_not_cancel_sequence:
  "(let s = run standardContext
              ((initialApp ''u'')\<lparr>blocks := [withAudio ''a'' [0, 0], withAudio ''b'' [0, 0],
                                             withAudio ''c'' [0, 0]]\<rparr>)
              [ClickPlayAll, ClickPlay ''c'', SourceEnded 0]
    in map isPlaying (blocks s) = [False, True, True]
       \<and> map onended (sourceNodes s)
           = [Some (SequenceEnded ''a'' [withAudio ''b'' [0, 0], withAudio ''c'' [0, 0]]),
              Some (SingleEnded ''c''),
              Some (SequenceEnded ''b'' [withAudio ''c'' [0, 0]])]
       \<and> map stopCalled (sourceNodes s) = [True, False, False]
       \<and> map endedFired (sourceNodes s) = [True, False, False]
       \<and> currentAudioSource s = Some 2)"
  by (simp add: run_def playAllSequentially_def playBlock_def sourceEnded_def stopAllPlayback_def
        startSource_def setPlaying_def initialApp_def withAudio_def newBlock_def
        decode_one_frame_Suc Let_def)

text \<open>
  When nothing starts a playback between \<^verbatim>\<open>stopAllPlayback\<close> and the \<^verbatim>\<open>ended\<close> event
  of the stopped clip, the loop does end without starting a clip
  (\<open>sequence_ends_after_stop\<close>); so it is when the sequence is stopped with its own button.
\<close>

lemma stop_button_ends_sequence:
  "(let s = run standardContext
              ((initialApp ''u'')\<lparr>blocks := [withAudio ''a'' [0, 0], withAudio ''b'' [0, 0],
                                             withAudio ''c'' [0, 0]]\<rparr>)
              [ClickPlayAll, ClickPlayAll, SourceEnded 0]
    in map isPlaying (blocks s) = [False, False, False]
       \<and> length (sourceNodes s) = 1
       \<and> \<not> isPlayingAll s
       \<and> currentAudioSource s = None)"
  by (simp add: run_def playAllSequentially_def playBlock_def sourceEnded_def stopAllPlayback_def
        startSource_def setPlaying_def initialApp_def withAudio_def newBlock_def
        decode_one_frame_Suc Let_def)

lemma edit_keeps_playback:
  "is_edit e \<Longrightarrow>
   sourceNodes (step ctx s e) = sourceNodes s
   \<and> currentAudioSource (step ctx s e) = currentAudioSource s
   \<and> isPlayingAll (step ctx s e) = isPlayingAll s
   \<and> unhandledRejections (step ctx s e) = unhandledRejections s"
  by (cases e) (auto simp: addBlock_def removeBlock_def updateBlockText_def split: option.splits)

lemma edits_keep_playback:
  "list_all is_edit es \<Longrightarrow>
   sourceNodes (foldl (step ctx) s es) = sourceNodes s
   \<and> currentAudioSource (foldl (step ctx) s es) = currentAudioSource s
   \<and> isPlayingAll (foldl (step ctx) s es) = isPlayingAll s
   \<and> unhandledRejections (foldl (step ctx) s es) = unhandledRejections s"
proof (induction es arbitrary: s)
  case Nil
  then show ?case by simp
next
  case (Cons e es)
  then have "is_edit e" "list_all is_edit es" by simp_all
  from Cons.IH [OF this(2), of "step ctx s e"] edit_keeps_playback [OF this(1), of ctx s]
  show ?case by simp
qed

lemma decodable_decodes:
  assumes "1 \<le> maxNumberOfChannels ctx" "minSampleRate ctx \<le> 24000" "24000 \<le> maxSampleRate ctx"
    "audioData b = Some pcm" "decodable b"
  shows "\<exists>buffer. decodeAudioToBuffer pcm ctx 24000 1 = Inr buffer"
proof -
  have e: "even (length pcm)" and n: "pcm \<noteq> []"
    using assms(4,5) by (simp_all add: decodable_def)
  then have "length pcm \<noteq> 1" "length pcm \<noteq> 0" by auto
  then have "2 \<le> length pcm" by arith
  then have "0 < length pcm div 2 div 1" by simp
  with e assms(1-3) show ?thesis
    using decodeAudioToBuffer_ok [of pcm 1 ctx 24000] by simp
qed

lemma sourceEnded_resume:
  assumes "sourceNodes t = S @ [w]" "onended w = Some (SequenceEnded i rest)"
    "\<not> endedFired w" "currentAudioSource t = Some m"
  shows "sourceEnded ctx (length S) t =
           playAll_loop ctx rest
             (t\<lparr>sourceNodes := S @ [w\<lparr>endedFired := True\<rparr>],
                blocks := setPlaying i False (blocks t)\<rparr>)"
  using assms by (simp add: sourceEnded_def Let_def)

lemma playAll_loop_start:
  assumes "audioData b = Some pcm" "decodeAudioToBuffer pcm ctx 24000 1 = Inr buffer"
  shows "playAll_loop ctx (b # rest) t =
           t\<lparr>blocks := setPlaying (block_id b) True (blocks t),
             sourceNodes := sourceNodes t
                @ [\<lparr>sourceBuffer = buffer, onended = Some (SequenceEnded (block_id b) rest),
                    stopCalled = False, endedFired = False\<rparr>],
             currentAudioSource := Some (length (sourceNodes t))\<rparr>"
  using assms by (simp add: startSource_def)

lemma sequence_runs:
  assumes ctx: "1 \<le> maxNumberOfChannels ctx" "minSampleRate ctx \<le> 24000" "24000 \<le> maxSampleRate ctx"
  shows "sourceNodes t = S @ [\<lparr>sourceBuffer = buffer, onended = Some (SequenceEnded (block_id b) rest),
                                stopCalled = False, endedFired = False\<rparr>] \<Longrightarrow>
         audioData b = Some pcm \<Longrightarrow> decodeAudioToBuffer pcm ctx 24000 1 = Inr buffer \<Longrightarrow>
         currentAudioSource t = Some (length S) \<Longrightarrow> isPlayingAll t \<Longrightarrow>
         list_all (\<lambda>x. audioData x \<noteq> None \<and> decodable x) rest \<Longrightarrow>
         list_all (list_all is_edit) ess \<Longrightarrow> length ess \<le> Suc (length rest) \<Longrightarrow>
         map Some (sourceNodes (foldl (step ctx) t (completions (length S) ess)))
           = map Some S @ sequence_nodes ctx (length ess) (b # rest)
         \<and> isPlayingAll (foldl (step ctx) t (completions (length S) ess))
             = (length ess < Suc (length rest))
         \<and> unhandledRejections (foldl (step ctx) t (completions (length S) ess))
             = unhandledRejections t"
proof (induction ess arbitrary: t S buffer b rest pcm)
  case Nil
  then show ?case by simp
next
  case (Cons es ess)
  let ?w = "\<lparr>sourceBuffer = buffer, onended = Some (SequenceEnded (block_id b) rest),
             stopCalled = False, endedFired = False\<rparr>"
  let ?t1 = "foldl (step ctx) t es"
  have es: "list_all is_edit es" and ess: "list_all (list_all is_edit) ess"
    using Cons.prems(7) by simp_all
  have t1: "sourceNodes ?t1 = S @ [?w]" "currentAudioSource ?t1 = Some (length S)"
    "isPlayingAll ?t1" "unhandledRejections ?t1 = unhandledRejections t"
    using edits_keep_playback [OF es, of ctx t] Cons.prems(1,4,5) by simp_all
  let ?t2 = "?t1\<lparr>sourceNodes := S @ [?w\<lparr>endedFired := True\<rparr>],
                  blocks := setPlaying (block_id b) False (blocks ?t1)\<rparr>"
  have ended: "sourceEnded ctx (length S) ?t1 = playAll_loop ctx rest ?t2"
    using t1(1,2) by (intro sourceEnded_resume) simp_all
  have run: "foldl (step ctx) t (completions (length S) (es # ess))
               = foldl (step ctx) (playAll_loop ctx rest ?t2) (completions (Suc (length S)) ess)"
    by (simp add: ended)
  show ?case
  proof (cases rest)
    case Nil
    then have "ess = []" using Cons.prems(8) by simp
    then show ?thesis
      unfolding run using Nil t1 Cons.prems(2,3) by simp
  next
    case (Cons b' rest')
    then have b': "audioData b' \<noteq> None" "decodable b'"
      and rest': "list_all (\<lambda>x. audioData x \<noteq> None \<and> decodable x) rest'"
      using Cons.prems(6) by simp_all
    then obtain pcm' where pcm': "audioData b' = Some pcm'" by auto
    from decodable_decodes [OF ctx pcm' b'(2)]
    obtain buffer' where dec': "decodeAudioToBuffer pcm' ctx 24000 1 = Inr buffer'" by auto
    let ?S' = "S @ [?w\<lparr>endedFired := True\<rparr>]"
    let ?t3 = "playAll_loop ctx rest ?t2"
    have t3: "?t3 = ?t2\<lparr>blocks := setPlaying (block_id b') True (blocks ?t2),
                 sourceNodes := sourceNodes ?t2
                    @ [\<lparr>sourceBuffer = buffer', onended = Some (SequenceEnded (block_id b') rest'),
                        stopCalled = False, endedFired = False\<rparr>],
                 currentAudioSource := Some (length (sourceNodes ?t2))\<rparr>"
      unfolding Cons using pcm' dec' by (rule playAll_loop_start)
    have a1: "sourceNodes ?t3 = ?S' @ [\<lparr>sourceBuffer = buffer',
                  onended = Some (SequenceEnded (block_id b') rest'),
                  stopCalled = False, endedFired = False\<rparr>]"
      unfolding t3 by simp
    have a4: "currentAudioSource ?t3 = Some (length ?S')"
      unfolding t3 by simp
    have a5: "isPlayingAll ?t3" "unhandledRejections ?t3 = unhandledRejections t"
      unfolding t3 using t1 by simp_all
    have len: "length ess \<le> Suc (length rest')"
      using Cons.prems(8) Cons by simp
    from Cons.IH [OF a1 pcm' dec' a4 a5(1) rest' ess len]
    have ih: "map Some (sourceNodes (foldl (step ctx) ?t3 (completions (length ?S') ess)))
                = map Some ?S' @ sequence_nodes ctx (length ess) (b' # rest')"
      "isPlayingAll (foldl (step ctx) ?t3 (completions (length ?S') ess))
                = (length ess < Suc (length rest'))"
      "unhandledRejections (foldl (step ctx) ?t3 (completions (length ?S') ess))
                = unhandledRejections ?t3"
      by simp_all
    have l: "length ?S' = Suc (length S)" by simp
    show ?thesis
      unfolding run using ih [unfolded l] a5(2) Cons Cons.prems(2,3)
      by (simp del: sequence_nodes.simps playAll_loop.simps
               add: sequence_nodes.simps(2) [of ctx "Suc (length ess)" b])
  qed
qed

text \<open>
  Claim C8, as amended. Let \<^verbatim>\<open>playAllSequentially\<close> be called when no sequence is
  running, on a composition of which every carried buffer decodes (even length, not empty,
  in a context that accepts mono at 24000 Hz), and let the clips then end naturally one
  after the other while the user edits the composition (text edits, insertions, removals)
  at any point in between. After \<open>j\<close> completions the sources the call has started are
  those of the first \<open>j + 1\<close> segments that carried a buffer when the call started, in
  their order, each with the buffer decoded from the bytes the segment carried then; all
  but the last have ended, so each clip was started by the completion of the one before;
  the sequence is flagged as running until the last clip has ended; no promise is rejected.
\<close>

theorem playAllSequentially_order:
  assumes "1 \<le> maxNumberOfChannels ctx" "minSampleRate ctx \<le> 24000" "24000 \<le> maxSampleRate ctx"
    and "\<not> isPlayingAll s" and "list_all decodable (blocks s)"
    and "list_all (list_all is_edit) ess"
    and "length ess \<le> length (filter (\<lambda>b. audioData b \<noteq> None) (blocks s))"
  shows "map Some (sourceNodes (run ctx s (ClickPlayAll # completions (length (sourceNodes s)) ess)))
           = map Some (sourceNodes s)
             @ sequence_nodes ctx (length ess) (filter (\<lambda>b. audioData b \<noteq> None) (blocks s))
         \<and> isPlayingAll (run ctx s (ClickPlayAll # completions (length (sourceNodes s)) ess))
             = (length ess < length (filter (\<lambda>b. audioData b \<noteq> None) (blocks s)))
         \<and> unhandledRejections (run ctx s (ClickPlayAll # completions (length (sourceNodes s)) ess))
             = unhandledRejections s"
proof (cases "filter (\<lambda>b. audioData b \<noteq> None) (blocks s)")
  case Nil
  then have "ess = []" using assms(7) by simp
  then show ?thesis
    using Nil assms(4) by (simp add: run_def playAllSequentially_def)
next
  case (Cons b rest)
  have all: "list_all (\<lambda>x. audioData x \<noteq> None \<and> decodable x)
               (filter (\<lambda>b. audioData b \<noteq> None) (blocks s))"
    using assms(5) by (simp add: list_all_iff)
  then have b: "audioData b \<noteq> None" "decodable b"
    and rest: "list_all (\<lambda>x. audioData x \<noteq> None \<and> decodable x) rest"
    unfolding Cons by simp_all
  then obtain pcm where pcm: "audioData b = Some pcm" by auto
  from decodable_decodes [OF assms(1-3) pcm b(2)]
  obtain buffer where dec: "decodeAudioToBuffer pcm ctx 24000 1 = Inr buffer" by auto
  let ?t = "playAll_loop ctx (b # rest) (s\<lparr>isPlayingAll := True\<rparr>)"
  have first: "playAllSequentially ctx s = ?t"
    using assms(4) Cons by (simp add: playAllSequentially_def)
  have t: "?t = (s\<lparr>isPlayingAll := True\<rparr>)
             \<lparr>blocks := setPlaying (block_id b) True (blocks (s\<lparr>isPlayingAll := True\<rparr>)),
              sourceNodes := sourceNodes (s\<lparr>isPlayingAll := True\<rparr>)
                 @ [\<lparr>sourceBuffer = buffer, onended = Some (SequenceEnded (block_id b) rest),
                     stopCalled = False, endedFired = False\<rparr>],
              currentAudioSource := Some (length (sourceNodes (s\<lparr>isPlayingAll := True\<rparr>)))\<rparr>"
    using pcm dec by (rule playAll_loop_start)
  have a1: "sourceNodes ?t = sourceNodes s
              @ [\<lparr>sourceBuffer = buffer, onended = Some (SequenceEnded (block_id b) rest),
                  stopCalled = False, endedFired = False\<rparr>]"
    unfolding t by simp
  have a4: "currentAudioSource ?t = Some (length (sourceNodes s))"
    unfolding t by simp
  have a5: "isPlayingAll ?t" "unhandledRejections ?t = unhandledRejections s"
    unfolding t by simp_all
  have len: "length ess \<le> Suc (length rest)"
    using assms(7) Cons by simp
  have "run ctx s (ClickPlayAll # completions (length (sourceNodes s)) ess)
          = foldl (step ctx) ?t (completions (length (sourceNodes s)) ess)"
    by (simp add: run_def first del: playAll_loop.simps)
  then show ?thesis
    using sequence_runs [OF assms(1-3) a1 pcm dec a4 a5(1) rest assms(6) len] a5(2) Cons
    by (simp del: playAll_loop.simps sequence_nodes.simps)
qed

theorem playAllSequentially_order_witness:
  "map Some (sourceNodes (run standardContext
       ((initialApp ''u'')\<lparr>blocks := [withAudio ''a'' [0, 0], newBlock ''x'', withAudio ''b'' [0, 0]]\<rparr>)
       [ClickPlayAll, UpdateBlockText ''b'' ''edited'', SourceEnded 0, RemoveBlock ''a'', SourceEnded 1]))
     = [Some \<lparr>sourceBuffer = \<lparr>bufferSampleRate = 24000, channels = [[Finite 0]]\<rparr>,
               onended = Some (SequenceEnded ''a'' [withAudio ''b'' [0, 0]]),
               stopCalled = False, endedFired = True\<rparr>,
        Some \<lparr>sourceBuffer = \<lparr>bufferSampleRate = 24000, channels = [[Finite 0]]\<rparr>,
               onended = Some (SequenceEnded ''b'' []),
               stopCalled = False, endedFired = True\<rparr>]
   \<and> \<not> isPlayingAll (run standardContext
       ((initialApp ''u'')\<lparr>blocks := [withAudio ''a'' [0, 0], newBlock ''x'', withAudio ''b'' [0, 0]]\<rparr>)
       [ClickPlayAll, UpdateBlockText ''b'' ''edited'', SourceEnded 0, RemoveBlock ''a'', SourceEnded 1])"
proof -
  have c: "1 \<le> maxNumberOfChannels standardContext" "minSampleRate standardContext \<le> 24000"
    "24000 \<le> maxSampleRate standardContext"
    by (simp_all add: standardContext_def)
  show ?thesis
    using playAllSequentially_order [OF c, of
      "(initialApp ''u'')\<lparr>blocks := [withAudio ''a'' [0, 0], newBlock ''x'', withAudio ''b'' [0, 0]]\<rparr>"
      "[[UpdateBlockText ''b'' ''edited''], [RemoveBlock ''a'']]"]
    by (simp add: decodable_def initialApp_def withAudio_def newBlock_def decode_one_frame_Suc)
qed

text \<open>
  A segment that carries a buffer of one byte does not play: the decoder throws, the call
  is rejected and no source is started.
\<close>

theorem playAllSequentially_undecodable_clip:
  "sourceNodes (run standardContext ((initialApp ''u'')\<lparr>blocks := [withAudio ''a'' [7]]\<rparr>)
                  [ClickPlayAll]) = []
   \<and> unhandledRejections (run standardContext ((initialApp ''u'')\<lparr>blocks := [withAudio ''a'' [7]]\<rparr>)
                  [ClickPlayAll]) = [RangeError]"
  by (simp add: run_def playAllSequentially_def initialApp_def withAudio_def newBlock_def
        decodeAudioToBuffer_def Int16Array_def then_do_Inl)

subsection \<open>Editing the composition\<close>

text \<open>
  Claim C9. Editing the text of segment \<open>i\<close> changes nothing of the state but the list
  of segments, which keeps its length and the identifier at every position; a segment
  whose identifier is \<open>i\<close> gets the new text and loses its audio buffer and its
  container reference, its other fields unchanged; every other segment is unchanged.
\<close>

theorem updateBlockText_frame:
  "updateBlockText i t s = s\<lparr>blocks := blocks (updateBlockText i t s)\<rparr>
   \<and> length (blocks (updateBlockText i t s)) = length (blocks s)
   \<and> (\<forall>k. k < length (blocks s) \<longrightarrow>
          block_id (blocks (updateBlockText i t s) ! k) = block_id (blocks s ! k)
          \<and> (block_id (blocks s ! k) = i \<longrightarrow>
                blocks (updateBlockText i t s) ! k
                  = (blocks s ! k)\<lparr>block_text := t, audioData := None, audioUrl := None\<rparr>)
          \<and> (block_id (blocks s ! k) \<noteq> i \<longrightarrow>
                blocks (updateBlockText i t s) ! k = blocks s ! k))"
  by (simp add: updateBlockText_def)

theorem updateBlockText_frame_witness:
  "blocks (updateBlockText ''b'' ''new text''
       ((initialApp ''a'')\<lparr>blocks := [withAudio ''a'' [1, 2], withAudio ''b'' [3, 4]],
                            isPlayingAll := True\<rparr>))
     = [withAudio ''a'' [1, 2], (newBlock ''b'')\<lparr>block_text := ''new text''\<rparr>]
   \<and> isPlayingAll (updateBlockText ''b'' ''new text''
       ((initialApp ''a'')\<lparr>blocks := [withAudio ''a'' [1, 2], withAudio ''b'' [3, 4]],
                            isPlayingAll := True\<rparr>))"
  using updateBlockText_frame [of "''b''" "''new text''"
      "(initialApp ''a'')\<lparr>blocks := [withAudio ''a'' [1, 2], withAudio ''b'' [3, 4]],
                            isPlayingAll := True\<rparr>"]
  by (simp add: updateBlockText_def withAudio_def newBlock_def initialApp_def)

text \<open>
  \<^verbatim>\<open>removeBlock\<close> itself is a no-op on a list of one segment, and on a list with
  pairwise distinct identifiers it leaves at least one segment.
\<close>

lemma removeBlock_single: "length (blocks s) = 1 \<Longrightarrow> removeBlock i s = s"
  by (simp add: removeBlock_def)

lemma removeBlock_distinct_nonempty:
  assumes "distinct (map block_id (blocks s))" "blocks s \<noteq> []"
  shows "blocks (removeBlock i s) \<noteq> []"
proof (cases "1 < length (blocks s)")
  case False
  then show ?thesis using assms by (simp add: removeBlock_def)
next
  case True
  then obtain x y zs where xy: "blocks s = x # y # zs"
    by (cases "blocks s"; cases "tl (blocks s)") auto
  then have "block_id x \<noteq> block_id y" using assms(1) by auto
  then have "block_id x \<noteq> i \<or> block_id y \<noteq> i" by auto
  then show ?thesis using True xy by (auto simp: removeBlock_def)
qed

text \<open>
  Claim C10, at the input where the code departs from it. From the initial composition
  of one segment, the user asks for a voice preview, which appends a segment named
  \<open>preview\<close> until the generation settles; meanwhile the user removes the only segment
  of the composition, which \<^verbatim>\<open>removeBlock\<close> allows since the list has two entries; when
  the generation settles, the \<^verbatim>\<open>finally\<close> block filters the preview segment out, with
  no guard on the length, and the list of segments is empty.
\<close>

theorem preview_cleanup_empties_list:
  "blocks (run standardContext (initialApp ''u1'')
             [ClickPreview, RemoveBlock ''u1'', PreviewSettled (Inr [0, 0])]) = []"
  by (simp add: run_def playPreview_begin_def removeBlock_def playPreview_settle_def
        initialApp_def newBlock_def startSource_def split: sum.splits)

end
